theory Spec2Isabelle
  imports Main
begin

section \<open>go-morss: the data the handler works on\<close>

text \<open>
  The program is one Go file, \<^verbatim>\<open>morss.go\<close>. Everything it gets from a library
  (URL parsing, time parsing, \<^verbatim>\<open>strconv.Atoi\<close>, the random source, the feed parser,
  the readability extractor, the three serializers) is a field of the record \<open>world\<close>
  below, so every theorem holds for whatever those libraries answer.

  An instant (\<^verbatim>\<open>time.Time\<close>) is an integer count of nanoseconds;
  \<^verbatim>\<open>t.Before(u)\<close> is \<open>t < u\<close>.
\<close>

type_synonym time = int

text \<open>\<^verbatim>\<open>gofeed.Person\<close>, also used for \<^verbatim>\<open>feeds.Author\<close> (same two fields).\<close>

record person =
  Name :: string
  Email :: string

text \<open>
  \<^verbatim>\<open>gofeed.Item\<close>, the fields the program reads or writes. The \<^verbatim>\<open>*time.Time\<close>
  pointers are options (\<open>None\<close> is \<^verbatim>\<open>nil\<close>).
\<close>

record item =
  GUID :: string
  Title :: string
  Link :: string
  Description :: string
  Content :: string
  UpdatedParsed :: "time option"
  PublishedParsed :: "time option"
  Authors :: "person list"

text \<open>
  \<^verbatim>\<open>gofeed.Feed\<close>. \<^verbatim>\<open>Items\<close> is a slice of pointers in the source; the parser
  allocates one item per entry, so no two positions alias and the slice is a list of values.
\<close>

record feed =
  Feed_Title :: string
  Feed_Link :: string
  Feed_Description :: string
  Feed_UpdatedParsed :: "time option"
  Feed_PublishedParsed :: "time option"
  Feed_Authors :: "person list"
  Items :: "item list"
  FeedType :: string

text \<open>
  \<^verbatim>\<open>feeds.Item\<close> and \<^verbatim>\<open>feeds.Feed\<close> (gorilla/feeds), the model handed to the
  serializers. A \<^verbatim>\<open>time.Time\<close> field left unset holds Go's zero time; \<^verbatim>\<open>Link\<close> is
  always a fresh \<^verbatim>\<open>&feeds.Link{Href: ...}\<close>, kept as its \<^verbatim>\<open>Href\<close>.
\<close>

definition zeroTime :: time where
  "zeroTime = - 62135596800000000000"

record out_item =
  Out_Id :: string
  Out_Title :: string
  Out_Link :: string
  Out_Description :: string
  Out_Content :: string
  Out_Updated :: time
  Out_Created :: time
  Out_Author :: "person option"

record out_feed =
  New_Title :: string
  New_Link :: string
  New_Description :: string
  New_Updated :: time
  New_Created :: time
  New_Author :: "person option"
  New_Items :: "out_item list"

text \<open>\<^verbatim>\<open>readability.Article\<close>: only \<^verbatim>\<open>Content\<close> is read.\<close>

record article =
  Article_Content :: string

text \<open>\<^verbatim>\<open>url.URL\<close>: the two fields \<^verbatim>\<open>isValidUrl\<close> looks at.\<close>

record url =
  Scheme :: string
  Host :: string

text \<open>A Go \<^verbatim>\<open>error\<close> value is its message.\<close>

type_synonym err = string

datatype format = RSS | Atom | JSON

text \<open>
  The libraries and the environment. \<open>Inl\<close> is a non-nil \<^verbatim>\<open>error\<close>.
  \<^item> \<open>now\<close>: \<^verbatim>\<open>time.Now()\<close>;
  \<^item> \<open>url_Parse\<close>: \<^verbatim>\<open>url.Parse\<close>;
  \<^item> \<open>time_Parse layout value\<close>: \<^verbatim>\<open>time.Parse\<close>;
  \<^item> \<open>strconv_Atoi\<close>: \<^verbatim>\<open>strconv.Atoi\<close>, which returns a value together with the
    error (0 on a syntax error, the clamped bound on a range error);
  \<^item> \<open>rand_Intn n\<close>: \<^verbatim>\<open>rand.Intn(n)\<close>;
  \<^item> \<open>ParseURLWithContext ua u\<close>: the feed parser with \<^verbatim>\<open>parser.UserAgent = ua\<close>
    fetching and parsing \<open>u\<close>;
  \<^item> \<open>FromURL i link timeout\<close>: \<^verbatim>\<open>readability.FromURL(link, timeout)\<close> as called
    for the item at position \<open>i\<close> (two fetches of one link may answer differently);
  \<^item> \<open>ToRss\<close>, \<open>ToAtom\<close>, \<open>ToJSON\<close>: the serializers of \<^verbatim>\<open>feeds.Feed\<close>;
  \<^item> \<open>json_Encode\<close>: what \<^verbatim>\<open>json.NewEncoder(w).Encode\<close> writes for a string, or
    its error.
\<close>

record world =
  now :: time
  url_Parse :: "string \<Rightarrow> err + url"
  time_Parse :: "string \<Rightarrow> string \<Rightarrow> err + time"
  strconv_Atoi :: "string \<Rightarrow> int \<times> err option"
  rand_Intn :: "nat \<Rightarrow> nat"
  ParseURLWithContext :: "string \<Rightarrow> string \<Rightarrow> err + feed"
  FromURL :: "nat \<Rightarrow> string \<Rightarrow> int \<Rightarrow> err + article"
  ToRss :: "out_feed \<Rightarrow> err + string"
  ToAtom :: "out_feed \<Rightarrow> err + string"
  ToJSON :: "out_feed \<Rightarrow> err + string"
  json_Encode :: "string \<Rightarrow> err + string"

text \<open>
  What the program does to the outside, in order: the calls that go to the network or to a
  serializer, and the log lines of the item loop (one per branch of the loop body, so the
  log tells which items the loop examined). The position \<open>i\<close> of the item is added to the
  log lines, which in the source carry the item's title.
\<close>

datatype event =
    FeedFetch string string
  | LogCapReached
  | LogHasContent nat
  | LogNoTime nat
  | LogOutsideWindow nat
  | ItemFetch nat string int
  | LogItemFailed nat err
  | LogAllFetched int
  | Emit format out_feed

section \<open>Constants\<close>

definition defaultItemsCap :: int where
  "defaultItemsCap = 10"

text \<open>\<^verbatim>\<open>time.Duration(30*24) * time.Hour\<close> and \<^verbatim>\<open>time.Duration(30) * time.Second\<close>, in nanoseconds.\<close>

definition defaultFromDaysAgo :: int where
  "defaultFromDaysAgo = 30 * 24 * 3600000000000"

definition defaultHTTPTimeout :: int where
  "defaultHTTPTimeout = 30 * 1000000000"

definition fromTimeParamName :: string where
  "fromTimeParamName = ''from_time''"

definition itemsCapParamName :: string where
  "itemsCapParamName = ''items_cap''"

definition userAgents :: "string list" where
  "userAgents =
    [''Mozilla/5.0 (Windows NT 10.0; Win64; x64) AppleWebKit/537.36 (KHTML, like Gecko) Chrome/131.0.0.0 Safari/537.36'',
     ''Mozilla/5.0 (Macintosh; Intel Mac OS X 10_15_7) AppleWebKit/537.36 (KHTML, like Gecko) Chrome/131.0.0.0 Safari/537.36'',
     ''Mozilla/5.0 (Windows NT 10.0; Win64; x64; rv:133.0) Gecko/20100101 Firefox/133.0'',
     ''Mozilla/5.0 (Windows NT 10.0; Win64; x64) AppleWebKit/537.36 (KHTML, like Gecko) Chrome/131.0.0.0 Safari/537.36 Edg/131.0.0.0'',
     ''Mozilla/5.0 (X11; Linux x86_64) AppleWebKit/537.36 (KHTML, like Gecko) Chrome/131.0.0.0 Safari/537.36'',
     ''Mozilla/5.0 (X11; Linux x86_64; rv:133.0) Gecko/20100101 Firefox/133.0'',
     ''Mozilla/5.0 (Macintosh; Intel Mac OS X 10.15; rv:133.0) Gecko/20100101 Firefox/133.0'',
     ''Mozilla/5.0 (Macintosh; Intel Mac OS X 10_15_7) AppleWebKit/605.1.15 (KHTML, like Gecko) Version/18.1.1 Safari/605.1.15'',
     ''Mozilla/5.0 (X11; Linux x86_64; rv:128.0) Gecko/20100101 Firefox/128.0'',
     ''Mozilla/5.0 (X11; Ubuntu; Linux x86_64; rv:133.0) Gecko/20100101 Firefox/133.0'']"

section \<open>The item loop: \<^verbatim>\<open>fetchFeedItems\<close>\<close>

text \<open>
  Lines 130-135: the item's time is \<^verbatim>\<open>UpdatedParsed\<close> when that is set, else
  \<^verbatim>\<open>PublishedParsed\<close>, else \<^verbatim>\<open>nil\<close>.
\<close>

definition itemTime :: "item \<Rightarrow> time option" where
  "itemTime it =
     (if UpdatedParsed it \<noteq> None then UpdatedParsed it
      else if PublishedParsed it \<noteq> None then PublishedParsed it
      else None)"

text \<open>
  Lines 146-158, the body of the goroutine started for one item: fetch the page of the
  item's link; on an error log it and return with the item as it was; otherwise store the
  article's content in the item. The result is the item after the unit has finished and the
  events of the unit.
\<close>

definition enrich :: "world \<Rightarrow> nat \<Rightarrow> item \<Rightarrow> item \<times> event list" where
  "enrich W i it =
     (case FromURL W i (Link it) defaultHTTPTimeout of
        Inl e \<Rightarrow> (it, [ItemFetch i (Link it) defaultHTTPTimeout, LogItemFailed i e])
      | Inr a \<Rightarrow> (it\<lparr>Content := Article_Content a\<rparr>, [ItemFetch i (Link it) defaultHTTPTimeout]))"

text \<open>
  Lines 116-159, the loop \<^verbatim>\<open>for i := range feed.Items\<close>, from position \<open>i\<close> with
  \<open>count\<close> units started so far, over the items not yet visited. It returns those items as
  they are after \<^verbatim>\<open>wg.Wait()\<close>, the final \<open>count\<close> and the events.

  The units run concurrently with the loop in the source. Each one writes the content of
  its own item only, and the loop reads an item's content before that item's unit exists,
  so the state after the join is the one computed here, where a unit runs where it is
  started; the order of the units' events among the others is the model's choice.
\<close>

fun fetchLoop :: "world \<Rightarrow> time \<Rightarrow> int \<Rightarrow> nat \<Rightarrow> int \<Rightarrow> item list \<Rightarrow> item list \<times> int \<times> event list" where
  "fetchLoop W from itemsCap i count [] = ([], count, [])"
| "fetchLoop W from itemsCap i count (it # rest) =
     (if count \<ge> itemsCap then (it # rest, count, [LogCapReached])
      else if Content it \<noteq> [] then
        (case fetchLoop W from itemsCap (Suc i) count rest of
           (rest', count', evs) \<Rightarrow> (it # rest', count', LogHasContent i # evs))
      else
        (case itemTime it of
           None \<Rightarrow>
             (case fetchLoop W from itemsCap (Suc i) count rest of
                (rest', count', evs) \<Rightarrow> (it # rest', count', LogNoTime i # evs))
         | Some t \<Rightarrow>
             if t < from then
               (case fetchLoop W from itemsCap (Suc i) count rest of
                  (rest', count', evs) \<Rightarrow> (it # rest', count', LogOutsideWindow i # evs))
             else
               (case enrich W i it of
                  (it', unit_evs) \<Rightarrow>
                    (case fetchLoop W from itemsCap (Suc i) (count + 1) rest of
                       (rest', count', evs) \<Rightarrow> (it' # rest', count', unit_evs @ evs)))))"

text \<open>
  \<^verbatim>\<open>fetchFeedItems(ctx, feed, from, itemsCap)\<close>: the loop from position 0 with
  \<open>count = 0\<close>, the join, the closing log line with \<open>count\<close>, and the feed with its items
  updated in place.
\<close>

definition fetchFeedItems :: "world \<Rightarrow> feed \<Rightarrow> time \<Rightarrow> int \<Rightarrow> feed \<times> event list" where
  "fetchFeedItems W fd from itemsCap =
     (case fetchLoop W from itemsCap 0 0 (Items fd) of
        (items', count, evs) \<Rightarrow> (fd\<lparr>Items := items'\<rparr>, evs @ [LogAllFetched count]))"

section \<open>The response writer\<close>

text \<open>
  \<^verbatim>\<open>http.ResponseWriter\<close>, by the contract of its interface: \<open>Header\<close> is the
  header map the handler edits; \<open>sent\<close> is the status line and the headers that went out
  with it, fixed by the first \<^verbatim>\<open>WriteHeader\<close> (or the first \<^verbatim>\<open>Write\<close>, which
  sends 200): changing the header map afterwards has no effect on them. A \<^verbatim>\<open>Write\<close>
  with no \<^verbatim>\<open>Content-Type\<close> set would detect one from the bytes; every write of this
  handler comes after a \<^verbatim>\<open>Content-Type\<close> is set, so that is left out.
\<close>

record response =
  Header :: "string \<rightharpoonup> string"
  sent :: "(nat \<times> (string \<rightharpoonup> string)) option"
  body :: string

definition newResponse :: response where
  "newResponse = \<lparr>Header = Map.empty, sent = None, body = []\<rparr>"

definition Header_Set :: "string \<Rightarrow> string \<Rightarrow> response \<Rightarrow> response" where
  "Header_Set k v w = w\<lparr>Header := (Header w)(k \<mapsto> v)\<rparr>"

definition Header_Del :: "string \<Rightarrow> response \<Rightarrow> response" where
  "Header_Del k w = w\<lparr>Header := (Header w)(k := None)\<rparr>"

definition WriteHeader :: "nat \<Rightarrow> response \<Rightarrow> response" where
  "WriteHeader code w =
     (case sent w of None \<Rightarrow> w\<lparr>sent := Some (code, Header w)\<rparr> | Some _ \<Rightarrow> w)"

definition Write :: "string \<Rightarrow> response \<Rightarrow> response" where
  "Write bs w = (let w' = WriteHeader 200 w in w'\<lparr>body := body w' @ bs\<rparr>)"

text \<open>\<^verbatim>\<open>fmt.Fprint(w, s)\<close> and \<^verbatim>\<open>fmt.Fprintln(w, s)\<close> for a string \<open>s\<close>.\<close>

definition Fprint :: "response \<Rightarrow> string \<Rightarrow> response" where
  "Fprint w s = Write s w"

definition Fprintln :: "response \<Rightarrow> string \<Rightarrow> response" where
  "Fprintln w s = Write (s @ [CHR 0x0A]) w"

text \<open>\<^verbatim>\<open>http.Error(w, error, code)\<close>.\<close>

definition http_Error :: "response \<Rightarrow> string \<Rightarrow> nat \<Rightarrow> response" where
  "http_Error w msg code =
     Fprintln
       (WriteHeader code
         (Header_Set ''X-Content-Type-Options'' ''nosniff''
           (Header_Set ''Content-Type'' ''text/plain; charset=utf-8''
             (Header_Del ''Content-Length'' w))))
       msg"

text \<open>
  What the client receives once the handler has returned: a handler that never wrote gets
  status 200 with the header map as it stands.
\<close>

definition finalStatus :: "response \<Rightarrow> nat" where
  "finalStatus w = (case sent w of None \<Rightarrow> 200 | Some (code, _) \<Rightarrow> code)"

definition finalHeader :: "response \<Rightarrow> string \<rightharpoonup> string" where
  "finalHeader w = (case sent w of None \<Rightarrow> Header w | Some (_, h) \<Rightarrow> h)"

section \<open>The handler: \<^verbatim>\<open>processRequest\<close>\<close>

text \<open>
  \<^verbatim>\<open>http.Request\<close>: \<^verbatim>\<open>req.URL.Path\<close> and \<^verbatim>\<open>req.URL.Query()\<close>; a parameter that
  is absent has the empty list of values.
\<close>

record request =
  Path :: string
  Query :: "string \<Rightarrow> string list"

definition badgePage :: string where
  \<open>badgePage = concat (map (\<lambda>l. l @ [CHR 0x0A])
    ['''',
     ''<div style="font-family:sans-serif">'',
     '''',
     ''<p><a href="https://github.com/traut/go-morss"><code>go-morss</code></a> adds full content to the items in RSS / Atom / JSON feeds.</p>'',
     ''<p>'',
     CHR 0x09 # ''To use <code>go-morss</code> API, add a feed URL without a schema to the root endpoint:'',
     CHR 0x09 # ''<pre>&lt;go-morss-domain&gt;/&lt;feed-url-without-schema&gt;</pre>'',
     CHR 0x09 # ''For example, <a href="/news.ycombinator.com/rss"><code>&lt;this-domain&gt;/news.ycombinator.com/rss</code></a>.'',
     CHR 0x09 # ''You can use this new URL in a feed reader or download the feed with a HTTP GET request.'',
     ''</p>'',
     ''<p>'',
     ''Note:'',
     CHR 0x09 # ''<ul>'',
     CHR 0x09 # ''<li>the schema <code>https://</code> is assumed for a feed URL</li>'',
     CHR 0x09 # ''<li>the new feed is returned in the format of the original feed (RSS / Atom / JSON)'',
     CHR 0x09 # ''<li>there is no cache support at the moment</li>'',
     CHR 0x09 # ''</ul>'',
     ''</p>'',
     ''</div>''])\<close>

definition strings_TrimPrefix :: "string \<Rightarrow> string \<Rightarrow> string" where
  "strings_TrimPrefix s p = (if take (length p) s = p then drop (length p) s else s)"

definition FnMap :: "'i list \<Rightarrow> ('i \<Rightarrow> 'o) \<Rightarrow> 'o list" where
  "FnMap s fn = map fn s"

definition isValidUrl :: "world \<Rightarrow> string \<Rightarrow> bool" where
  "isValidUrl W v =
     (case url_Parse W v of Inl _ \<Rightarrow> False | Inr u \<Rightarrow> Scheme u \<noteq> [] \<and> Host u \<noteq> [])"

text \<open>
  \<^verbatim>\<open>userAgents[rand.Intn(len(userAgents))]\<close>. \<^verbatim>\<open>rand.Intn(n)\<close> answers in
  \<open>[0, n)\<close>; a theorem that needs the string to be in the pool assumes so.
\<close>

definition getRandUserAgent :: "world \<Rightarrow> string" where
  "getRandUserAgent W = userAgents ! rand_Intn W (length userAgents)"

definition fetchFeed :: "world \<Rightarrow> string \<Rightarrow> (err + feed) \<times> event list" where
  "fetchFeed W u =
     (let ua = getRandUserAgent W in (ParseURLWithContext W ua u, [FeedFetch ua u]))"

definition parseTimeParam :: "world \<Rightarrow> string \<Rightarrow> err + time" where
  "parseTimeParam W v = time_Parse W ''2006-01-02T15:04:05Z'' v"

text \<open>Lines 270-288: the function mapped over the items.\<close>

definition newItem :: "item \<Rightarrow> out_item" where
  "newItem it =
     \<lparr>Out_Id = GUID it,
      Out_Title = Title it,
      Out_Link = Link it,
      Out_Description = Description it,
      Out_Content = Content it,
      Out_Updated = (case UpdatedParsed it of Some t \<Rightarrow> t | None \<Rightarrow> zeroTime),
      Out_Created = (case PublishedParsed it of Some t \<Rightarrow> t | None \<Rightarrow> zeroTime),
      Out_Author =
        (if length (Authors it) > 0
         then Some \<lparr>Name = Name (Authors it ! 0), Email = Email (Authors it ! 0)\<rparr>
         else None)\<rparr>"

text \<open>Lines 255-288: \<^verbatim>\<open>feedNew\<close>, built from the feed after the item loop.\<close>

definition newFeed :: "feed \<Rightarrow> out_feed" where
  "newFeed fd =
     \<lparr>New_Title = Feed_Title fd @ '' (repacked by go-morss)'',
      New_Link = Feed_Link fd,
      New_Description = Feed_Description fd,
      New_Updated = (case Feed_UpdatedParsed fd of Some t \<Rightarrow> t | None \<Rightarrow> zeroTime),
      New_Created = (case Feed_PublishedParsed fd of Some t \<Rightarrow> t | None \<Rightarrow> zeroTime),
      New_Author =
        (if length (Feed_Authors fd) > 0
         then Some \<lparr>Name = Name (Feed_Authors fd ! 0), Email = Email (Feed_Authors fd ! 0)\<rparr>
         else None),
      New_Items = FnMap (Items fd) newItem\<rparr>"

text \<open>
  Lines 291-324: \<^verbatim>\<open>switch feed.FeedType\<close>, with no \<^verbatim>\<open>default\<close> case. \<open>Emit\<close>
  records which serializer was called, on which feed.
\<close>

definition serialize :: "world \<Rightarrow> response \<Rightarrow> string \<Rightarrow> out_feed \<Rightarrow> response \<times> event list" where
  "serialize W w feedType feedNew =
     (if feedType = ''rss'' then
        (case ToRss W feedNew of
           Inl e \<Rightarrow> (http_Error w ''Server error'' 500, [Emit RSS feedNew])
         | Inr rssBody \<Rightarrow>
             (Fprintln (Header_Set ''Content-Type'' ''application/xml'' w) rssBody,
              [Emit RSS feedNew]))
      else if feedType = ''atom'' then
        (case ToAtom W feedNew of
           Inl e \<Rightarrow> (http_Error w ''Server error'' 500, [Emit Atom feedNew])
         | Inr atomBody \<Rightarrow>
             (Fprintln (Header_Set ''Content-Type'' ''application/xml'' w) atomBody,
              [Emit Atom feedNew]))
      else if feedType = ''json'' then
        (case ToJSON W feedNew of
           Inl e \<Rightarrow> (http_Error w ''Server error'' 500, [Emit JSON feedNew])
         | Inr jsonBody \<Rightarrow>
             (let w' = Header_Set ''Content-Type'' ''application/json'' w in
              case json_Encode W jsonBody of
                Inl e \<Rightarrow> (http_Error w' ''Server error'' 500, [Emit JSON feedNew])
              | Inr bs \<Rightarrow> (Write bs w', [Emit JSON feedNew])))
      else (w, []))"

text \<open>
  Lines 241-324, the rest of \<^verbatim>\<open>processRequest\<close> once \<open>feedURL\<close>, \<open>fromTime\<close> and
  \<open>itemsCap\<close> are set: fetch the feed (return with nothing written when that fails), run the
  item loop, build \<^verbatim>\<open>feedNew\<close>, serialize by format.
\<close>

definition serveFeed :: "world \<Rightarrow> response \<Rightarrow> string \<Rightarrow> time \<Rightarrow> int \<Rightarrow> response \<times> event list" where
  "serveFeed W w feedURL fromTime itemsCap =
     (case fetchFeed W feedURL of
        (Inl e, evs) \<Rightarrow> (w, evs)
      | (Inr fd, evs) \<Rightarrow>
          (case fetchFeedItems W fd fromTime itemsCap of
             (fd', evs') \<Rightarrow>
               (case serialize W w (FeedType fd') (newFeed fd') of
                  (w', evs'') \<Rightarrow> (w', evs @ evs' @ evs''))))"

text \<open>\<^verbatim>\<open>fmt.Sprintf("Can't parse `%s` query param value", name)\<close>.\<close>

definition cantParse :: "string \<Rightarrow> string" where
  "cantParse name = ''Can't parse `'' @ name @ ''` query param value''"

text \<open>
  Lines 229-239. \<^verbatim>\<open>itemsCap\<close> starts as the server's cap; when the parameter is present
  it is overwritten with what \<^verbatim>\<open>strconv.Atoi\<close> returns, and on an error the 400 is
  written, with the message built from \<^verbatim>\<open>fromTimeParamName\<close>; the branch has no
  \<^verbatim>\<open>return\<close>, so the handler goes on with that value and that writer.
\<close>

definition itemsCapParam :: "world \<Rightarrow> response \<Rightarrow> string list \<Rightarrow> int \<Rightarrow> int \<times> response" where
  "itemsCapParam W w vs itemsCapByServer =
     (if length vs > 0 then
        (case strconv_Atoi W (vs ! 0) of
           (n, None) \<Rightarrow> (n, w)
         | (n, Some e) \<Rightarrow> (n, http_Error w (cantParse fromTimeParamName) 400))
      else (itemsCapByServer, w))"

text \<open>
  \<^verbatim>\<open>processRequest(w, req, itemsCapByServer)\<close>: the response writer when the handler
  returns, and the events.
\<close>

definition processRequest :: "world \<Rightarrow> response \<Rightarrow> request \<Rightarrow> int \<Rightarrow> response \<times> event list" where
  "processRequest W w req itemsCapByServer =
     (let feedURL = strings_TrimPrefix (Path req) ''/'' in
      if feedURL = [] then
        (Fprint (Header_Set ''Content-Type'' ''text/html; charset=utf-8'' w) badgePage, [])
      else if feedURL = ''favicon.ico'' then (http_Error w ''Not found'' 404, [])
      else
        let feedURL = ''https://'' @ feedURL in
        if \<not> isValidUrl W feedURL then
          (http_Error w ''No valid RSS URL found in the path'' 400, [])
        else
          let query = Query req;
              fromTimeDefault = now W - defaultFromDaysAgo
          in
          case (if length (query fromTimeParamName) > 0
                then parseTimeParam W (query fromTimeParamName ! 0)
                else Inr fromTimeDefault) of
            Inl e \<Rightarrow> (http_Error w (cantParse fromTimeParamName) 400, [])
          | Inr fromTime \<Rightarrow>
              (case itemsCapParam W w (query itemsCapParamName) itemsCapByServer of
                 (itemsCap, w') \<Rightarrow> serveFeed W w' feedURL fromTime itemsCap))"

text \<open>\<^verbatim>\<open>getHandlerFunc(itemsCap)\<close>: the handler the server registers.\<close>

definition getHandlerFunc :: "int \<Rightarrow> world \<Rightarrow> response \<Rightarrow> request \<Rightarrow> response \<times> event list" where
  "getHandlerFunc itemsCap = (\<lambda>W w req. processRequest W w req itemsCap)"

section \<open>Reading the events, and the selection policy in the words of the specification\<close>

text \<open>
  An item is eligible for enrichment when its content is empty and it has a time that is
  not before the lower bound.
\<close>

definition eligible :: "time \<Rightarrow> item \<Rightarrow> bool" where
  "eligible from it =
     (Content it = [] \<and> (case itemTime it of None \<Rightarrow> False | Some t \<Rightarrow> from \<le> t))"

text \<open>The positions for which a unit of enrichment was started, in the order of the events.\<close>

fun fetchedAt :: "event \<Rightarrow> nat option" where
  "fetchedAt (ItemFetch i l t) = Some i"
| "fetchedAt _ = None"

definition selected :: "event list \<Rightarrow> nat list" where
  "selected evs = List.map_filter fetchedAt evs"

text \<open>
  The positions the loop body ran on: each of its four branches leaves one event with the
  position.
\<close>

fun examinedAt :: "event \<Rightarrow> nat option" where
  "examinedAt (LogHasContent i) = Some i"
| "examinedAt (LogNoTime i) = Some i"
| "examinedAt (LogOutsideWindow i) = Some i"
| "examinedAt (ItemFetch i l t) = Some i"
| "examinedAt _ = None"

definition examined :: "event list \<Rightarrow> nat list" where
  "examined evs = List.map_filter examinedAt evs"

text \<open>The value of \<^verbatim>\<open>FeedType\<close> that selects each serializer in the \<^verbatim>\<open>switch\<close>.\<close>

fun formatTag :: "format \<Rightarrow> string" where
  "formatTag RSS = ''rss''"
| "formatTag Atom = ''atom''"
| "formatTag JSON = ''json''"

text \<open>
  The client identity the program sets for a fetch: \<^verbatim>\<open>fetchFeed\<close> sets
  \<^verbatim>\<open>parser.UserAgent\<close> before the feed fetch; the call
  \<^verbatim>\<open>readability.FromURL(item.Link, defaultHTTPTimeout)\<close> passes a link and a timeout and
  nothing else.
\<close>

fun clientIdentity :: "event \<Rightarrow> string option" where
  "clientIdentity (FeedFetch ua u) = Some ua"
| "clientIdentity _ = None"

text \<open>
  The \<^verbatim>\<open>Content-Type\<close> each branch of the \<^verbatim>\<open>switch\<close> sets, and what it means for
  a branch to get through without an error.
\<close>

fun contentType :: "format \<Rightarrow> string" where
  "contentType RSS = ''application/xml''"
| "contentType Atom = ''application/xml''"
| "contentType JSON = ''application/json''"

fun serializedOk :: "world \<Rightarrow> format \<Rightarrow> out_feed \<Rightarrow> bool" where
  "serializedOk W RSS nf = (case ToRss W nf of Inl e \<Rightarrow> False | Inr b \<Rightarrow> True)"
| "serializedOk W Atom nf = (case ToAtom W nf of Inl e \<Rightarrow> False | Inr b \<Rightarrow> True)"
| "serializedOk W JSON nf =
     (case ToJSON W nf of
        Inl e \<Rightarrow> False
      | Inr jb \<Rightarrow> (case json_Encode W jb of Inl e \<Rightarrow> False | Inr bs \<Rightarrow> True))"

section \<open>A small feed and a small world to run the definitions on\<close>

definition exampleItem :: "string \<Rightarrow> string \<Rightarrow> time option \<Rightarrow> time option \<Rightarrow> item" where
  "exampleItem link content upd pub =
     \<lparr>GUID = link, Title = ''title'', Link = link, Description = ''summary'', Content = content,
      UpdatedParsed = upd, PublishedParsed = pub, Authors = []\<rparr>"

definition exampleFeed :: feed where
  "exampleFeed =
     \<lparr>Feed_Title = ''News'', Feed_Link = ''https://example.com'',
      Feed_Description = ''All the news'',
      Feed_UpdatedParsed = None, Feed_PublishedParsed = None, Feed_Authors = [],
      Items =
        [exampleItem ''a'' [] (Some 100) (Some 50),
         exampleItem ''b'' ''kept'' (Some 500) None,
         exampleItem ''c'' [] None None,
         exampleItem ''d'' [] None (Some 50),
         exampleItem ''e'' [] None (Some 150),
         exampleItem ''f'' [] (Some 300) None],
      FeedType = ''rss''\<rparr>"

definition exampleWorld :: world where
  "exampleWorld =
     \<lparr>now = 1000,
      url_Parse = (\<lambda>s. Inr \<lparr>Scheme = ''https'', Host = ''example.com''\<rparr>),
      time_Parse = (\<lambda>layout v. Inl ''cannot parse''),
      strconv_Atoi = (\<lambda>s. if s = ''2'' then (2, None) else (0, Some ''invalid syntax'')),
      rand_Intn = (\<lambda>n. 3),
      ParseURLWithContext = (\<lambda>ua u. Inr exampleFeed),
      FromURL = (\<lambda>i link timeout.
        if link = ''a'' then Inr \<lparr>Article_Content = ''full text''\<rparr> else Inl ''timeout''),
      ToRss = (\<lambda>f. Inr ''<rss/>''),
      ToAtom = (\<lambda>f. Inr ''<feed/>''),
      ToJSON = (\<lambda>f. Inr ''{}''),
      json_Encode = (\<lambda>s. Inr s)\<rparr>"

text \<open>\<^verbatim>\<open>GET /example.com/feed\<close>, and the same with \<^verbatim>\<open>?items_cap=abc\<close>.\<close>

definition exampleRequest :: request where
  "exampleRequest = \<lparr>Path = ''/example.com/feed'', Query = (\<lambda>k. [])\<rparr>"

definition badCapRequest :: request where
  "badCapRequest =
     \<lparr>Path = ''/example.com/feed'',
      Query = (\<lambda>k. if k = ''items_cap'' then [''abc''] else [])\<rparr>"

section \<open>Properties of the item loop\<close>

lemma selected_Nil [simp]: "selected [] = []"
  by (simp add: selected_def map_filter_simps)

lemma selected_Cons: "selected (e # evs) = (case fetchedAt e of None \<Rightarrow> selected evs | Some i \<Rightarrow> i # selected evs)"
  unfolding selected_def by (simp add: map_filter_simps)

lemma selected_append [simp]: "selected (xs @ ys) = selected xs @ selected ys"
  by (simp add: selected_def map_filter_def)

lemma examined_Nil [simp]: "examined [] = []"
  by (simp add: examined_def map_filter_simps)

lemma examined_Cons: "examined (e # evs) = (case examinedAt e of None \<Rightarrow> examined evs | Some i \<Rightarrow> i # examined evs)"
  unfolding examined_def by (simp add: map_filter_simps)

lemma examined_append [simp]: "examined (xs @ ys) = examined xs @ examined ys"
  by (simp add: examined_def map_filter_def)

lemma enrich_events:
  "selected (snd (enrich W i it)) = [i]" "examined (snd (enrich W i it)) = [i]"
  by (auto simp: enrich_def selected_Cons examined_Cons split: sum.splits)

lemma eligible_iff:
  "eligible from it \<longleftrightarrow> Content it = [] \<and> (\<exists>t. itemTime it = Some t \<and> \<not> t < from)"
  by (auto simp: eligible_def split: option.splits)

lemma fetchLoop_step:
  "fetchLoop W from cap i count (it # rest) =
     (if count \<ge> cap then (it # rest, count, [LogCapReached])
      else if eligible from it then
        (fst (enrich W i it) # fst (fetchLoop W from cap (Suc i) (count + 1) rest),
         fst (snd (fetchLoop W from cap (Suc i) (count + 1) rest)),
         snd (enrich W i it) @ snd (snd (fetchLoop W from cap (Suc i) (count + 1) rest)))
      else
        (it # fst (fetchLoop W from cap (Suc i) count rest),
         fst (snd (fetchLoop W from cap (Suc i) count rest)),
         (if Content it \<noteq> [] then LogHasContent i
          else if itemTime it = None then LogNoTime i else LogOutsideWindow i)
         # snd (snd (fetchLoop W from cap (Suc i) count rest))))"
  by (auto simp: eligible_iff split: prod.splits option.splits)

lemma fetchLoop_selected:
  "selected (snd (snd (fetchLoop W from cap i count xs))) =
     map fst (take (nat (cap - count)) (filter (\<lambda>(k, it). eligible from it) (enumerate i xs)))"
proof (induction xs arbitrary: i count)
  case Nil
  then show ?case by simp
next
  case (Cons it rest)
  show ?case
  proof (cases "count \<ge> cap")
    case True
    then show ?thesis by (simp add: selected_Cons)
  next
    case False
    show ?thesis
    proof (cases "eligible from it")
      case True
      from False have n: "nat (cap - count) = Suc (nat (cap - (count + 1)))" by simp
      show ?thesis
        unfolding fetchLoop_step n using False True
        by (simp add: enrich_events Cons.IH)
    next
      case ne: False
      show ?thesis
        unfolding fetchLoop_step using False ne
        by (simp add: selected_Cons Cons.IH)
    qed
  qed
qed


lemma fetchLoop_count:
  "fst (snd (fetchLoop W from cap i count xs)) =
     count + int (length (selected (snd (snd (fetchLoop W from cap i count xs)))))"
proof (induction xs arbitrary: i count)
  case Nil
  then show ?case by simp
next
  case (Cons it rest)
  show ?case
    unfolding fetchLoop_step
    using Cons.IH[of "Suc i" count] Cons.IH[of "Suc i" "count + 1"]
    by (simp add: selected_Cons enrich_events)
qed

lemma fetchLoop_length:
  "length (fst (fetchLoop W from cap i count xs)) = length xs"
proof (induction xs arbitrary: i count)
  case Nil
  then show ?case by simp
next
  case (Cons it rest)
  show ?case unfolding fetchLoop_step by (simp add: Cons.IH)
qed

lemma fetchLoop_examined_upt:
  "examined (snd (snd (fetchLoop W from cap i count xs))) =
     [i ..< i + length (examined (snd (snd (fetchLoop W from cap i count xs))))]"
proof (induction xs arbitrary: i count)
  case Nil
  then show ?case by simp
next
  case (Cons it rest)
  have up: "\<And>m. i # [Suc i ..< Suc i + m] = [i ..< i + Suc m]"
    by (simp add: upt_conv_Cons)
  show ?case
  proof (cases "count \<ge> cap")
    case True
    then show ?thesis by (simp add: examined_Cons)
  next
    case False
    show ?thesis
    proof (cases "eligible from it")
      case True
      have "examined (snd (snd (fetchLoop W from cap i count (it # rest)))) =
              i # examined (snd (snd (fetchLoop W from cap (Suc i) (count + 1) rest)))"
        unfolding fetchLoop_step using False True by (simp add: enrich_events)
      then show ?thesis
        using Cons.IH[of "Suc i" "count + 1"] up by (metis length_Cons)
    next
      case ne: False
      have "examined (snd (snd (fetchLoop W from cap i count (it # rest)))) =
              i # examined (snd (snd (fetchLoop W from cap (Suc i) count rest)))"
        unfolding fetchLoop_step using False ne by (simp add: examined_Cons)
      then show ?thesis
        using Cons.IH[of "Suc i" count] up by (metis length_Cons)
    qed
  qed
qed

lemma fetchLoop_examined_length:
  "k < length (examined (snd (snd (fetchLoop W from cap i count xs)))) \<longleftrightarrow>
     k < length xs \<and> count + int (length (filter (eligible from) (take k xs))) < cap"
proof (induction xs arbitrary: i count k)
  case Nil
  then show ?case by simp
next
  case (Cons it rest)
  show ?case
  proof (cases "count \<ge> cap")
    case True
    then show ?thesis by (simp add: examined_Cons)
  next
    case False
    show ?thesis
    proof (cases k)
      case 0
      then show ?thesis
        unfolding fetchLoop_step using False
        by (simp add: examined_Cons enrich_events)
    next
      case (Suc k')
      show ?thesis
      proof (cases "eligible from it")
        case True
        then show ?thesis
          unfolding fetchLoop_step Suc using False Cons.IH[of k' "Suc i" "count + 1"]
          by (simp add: enrich_events add.assoc)
      next
        case ne: False
        then show ?thesis
          unfolding fetchLoop_step Suc using False Cons.IH[of k' "Suc i" count]
          by (simp add: examined_Cons)
      qed
    qed
  qed
qed

lemma selected_range:
  "j \<in> set (selected (snd (snd (fetchLoop W from cap i count xs)))) \<Longrightarrow> i \<le> j \<and> j < i + length xs"
  unfolding fetchLoop_selected
  by (auto dest!: in_set_takeD simp: in_set_enumerate_eq)

lemma fetchLoop_items:
  "fst (fetchLoop W from cap i count xs) =
     map (\<lambda>(k, it). if k \<in> set (selected (snd (snd (fetchLoop W from cap i count xs))))
                      then fst (enrich W k it) else it)
         (enumerate i xs)"
proof (induction xs arbitrary: i count)
  case Nil
  then show ?case by simp
next
  case (Cons it rest)
  have notin: "\<And>c. i \<notin> set (selected (snd (snd (fetchLoop W from cap (Suc i) c rest))))"
    using selected_range[of i W "from" cap "Suc i" _ rest] by auto
  have pos: "\<And>k x. (k, x) \<in> set (enumerate (Suc i) rest) \<Longrightarrow> k \<noteq> i"
    by (auto simp: in_set_enumerate_eq)
  show ?case
  proof (cases "count \<ge> cap")
    case True
    then show ?thesis by (simp add: selected_Cons case_prod_unfold)
  next
    case False
    show ?thesis
    proof (cases "eligible from it")
      case True
      show ?thesis
        unfolding fetchLoop_step using False True
        apply (simp add: enrich_events)
        apply (subst Cons.IH)
        apply (rule map_cong)
        using pos by auto
    next
      case ne: False
      have sel: "selected (snd (snd (fetchLoop W from cap i count (it # rest)))) =
                   selected (snd (snd (fetchLoop W from cap (Suc i) count rest)))"
        unfolding fetchLoop_step using False ne by (simp add: selected_Cons)
      have hd: "fst (fetchLoop W from cap i count (it # rest)) =
                  it # fst (fetchLoop W from cap (Suc i) count rest)"
        unfolding fetchLoop_step using False ne by simp
      show ?thesis
        unfolding sel hd by (simp add: notin Cons.IH[symmetric])
    qed
  qed
qed

lemma fetchLoop_selected_examined:
  "selected (snd (snd (fetchLoop W from cap i count xs))) =
     map fst (filter (\<lambda>(k, it). eligible from it)
       (take (length (examined (snd (snd (fetchLoop W from cap i count xs))))) (enumerate i xs)))"
proof (induction xs arbitrary: i count)
  case Nil
  then show ?case by simp
next
  case (Cons it rest)
  show ?case
  proof (cases "count \<ge> cap")
    case True
    then show ?thesis by (simp add: examined_Cons selected_Cons)
  next
    case False
    show ?thesis
    proof (cases "eligible from it")
      case True
      show ?thesis
        unfolding fetchLoop_step using False True
        by (simp add: enrich_events Cons.IH[symmetric])
    next
      case ne: False
      show ?thesis
        unfolding fetchLoop_step using False ne
        by (simp add: examined_Cons selected_Cons Cons.IH[symmetric])
    qed
  qed
qed


lemma in_selected_iff: "k \<in> set (selected evs) \<longleftrightarrow> (\<exists>l t. ItemFetch k l t \<in> set evs)"
proof (induction evs)
  case Nil
  then show ?case by simp
next
  case (Cons e evs)
  then show ?case by (cases e) (auto simp: selected_Cons)
qed

lemma take_enumerate_set:
  "(j, x) \<in> set (take n (enumerate i xs)) \<longleftrightarrow> (\<exists>k. k < n \<and> k < length xs \<and> j = i + k \<and> x = xs ! k)"
  by (auto simp: in_set_conv_nth nth_enumerate_eq)

lemma fetchLoop_selected_iff:
  "i + k \<in> set (selected (snd (snd (fetchLoop W from cap i count xs)))) \<longleftrightarrow>
     k < length (examined (snd (snd (fetchLoop W from cap i count xs)))) \<and> k < length xs \<and>
     eligible from (xs ! k)"
  by (subst fetchLoop_selected_examined) (auto simp: take_enumerate_set image_iff)

lemma fetchLoop_nth:
  "k < length xs \<Longrightarrow>
     fst (fetchLoop W from cap i count xs) ! k =
       (if i + k \<in> set (selected (snd (snd (fetchLoop W from cap i count xs))))
        then fst (enrich W (i + k) (xs ! k)) else xs ! k)"
  by (subst fetchLoop_items) (simp add: nth_enumerate_eq)

lemma fetchFeedItems_fst:
  "fst (fetchFeedItems W fd from cap) = fd\<lparr>Items := fst (fetchLoop W from cap 0 0 (Items fd))\<rparr>"
  by (simp add: fetchFeedItems_def split: prod.splits)

lemma fetchFeedItems_snd:
  "snd (fetchFeedItems W fd from cap) =
     snd (snd (fetchLoop W from cap 0 0 (Items fd))) @
     [LogAllFetched (fst (snd (fetchLoop W from cap 0 0 (Items fd))))]"
  by (simp add: fetchFeedItems_def split: prod.splits)

lemma fetchFeedItems_selected:
  "selected (snd (fetchFeedItems W fd from cap)) = selected (snd (snd (fetchLoop W from cap 0 0 (Items fd))))"
  by (simp add: fetchFeedItems_snd selected_Cons)

lemma fetchFeedItems_examined:
  "examined (snd (fetchFeedItems W fd from cap)) = examined (snd (snd (fetchLoop W from cap 0 0 (Items fd))))"
  by (simp add: fetchFeedItems_snd examined_Cons)

lemma fetchFeedItems_count:
  "LogAllFetched (int (length (selected (snd (fetchFeedItems W fd from cap))))) \<in> set (snd (fetchFeedItems W fd from cap))"
  using fetchLoop_count[of W "from" cap 0 0 "Items fd"]
  by (simp add: fetchFeedItems_selected) (simp add: fetchFeedItems_snd)

lemma fetchFeedItems_nth:
  "k < length (Items fd) \<Longrightarrow>
     Items (fst (fetchFeedItems W fd from cap)) ! k =
       (if k \<in> set (selected (snd (fetchFeedItems W fd from cap)))
        then fst (enrich W k (Items fd ! k)) else Items fd ! k)"
  using fetchLoop_nth[of k "Items fd" W "from" cap 0 0]
  by (simp add: fetchFeedItems_selected fetchFeedItems_fst)

lemma fetchFeedItems_selected_iff:
  "k \<in> set (selected (snd (fetchFeedItems W fd from cap))) \<longleftrightarrow>
     k < length (examined (snd (fetchFeedItems W fd from cap))) \<and> k < length (Items fd) \<and>
     eligible from (Items fd ! k)"
  using fetchLoop_selected_iff[of 0 k W "from" cap 0 "Items fd"]
  by (simp add: fetchFeedItems_selected fetchFeedItems_examined)

lemma fetchFeedItems_length:
  "length (Items (fst (fetchFeedItems W fd from cap))) = length (Items fd)"
  by (simp add: fetchFeedItems_fst fetchLoop_length)

text \<open>
  Claim C2. Whatever the items, the lower bound \<open>from\<close> and the cap: the units started are
  those of the first \<open>cap\<close> eligible items (empty content, a time not before \<open>from\<close>), in
  source order, so at most \<open>cap\<close> of them; the loop body runs on an initial stretch of the
  positions, and it runs on position \<open>k\<close> exactly when fewer than \<open>cap\<close> items were accepted
  before \<open>k\<close>, that is, the scan stops as soon as the count reaches the cap; every item
  from there on is in the output as it was.
\<close>

theorem selector_takes_first_cap_eligible:
  assumes "fetchFeedItems W fd from cap = (fd', evs)"
  shows "selected evs =
           map fst (take (nat cap) (filter (\<lambda>(k, it). eligible from it) (enumerate 0 (Items fd))))
       \<and> (0 \<le> cap \<longrightarrow> int (length (selected evs)) \<le> cap)
       \<and> examined evs = [0 ..< length (examined evs)]
       \<and> (\<forall>k. k < length (examined evs) \<longleftrightarrow>
               k < length (Items fd) \<and>
               int (length (filter (eligible from) (take k (Items fd)))) < cap)
       \<and> length (Items fd') = length (Items fd)
       \<and> (\<forall>k. length (examined evs) \<le> k \<and> k < length (Items fd) \<longrightarrow>
               Items fd' ! k = Items fd ! k)"
proof -
  have fd': "fd' = fst (fetchFeedItems W fd from cap)"
    and evs: "evs = snd (fetchFeedItems W fd from cap)"
    using assms by simp_all
  have sel: "selected evs =
      map fst (take (nat cap) (filter (\<lambda>(k, it). eligible from it) (enumerate 0 (Items fd))))"
    unfolding evs fetchFeedItems_selected fetchLoop_selected by simp
  have atmost: "0 \<le> cap \<longrightarrow> int (length (selected evs)) \<le> cap"
    unfolding sel by (auto simp: min_def le_nat_iff)
  have upt: "examined evs = [0 ..< length (examined evs)]"
    unfolding evs fetchFeedItems_examined
    using fetchLoop_examined_upt[of W "from" cap 0 0 "Items fd"] by simp
  have stop: "\<forall>k. k < length (examined evs) \<longleftrightarrow>
      k < length (Items fd) \<and> int (length (filter (eligible from) (take k (Items fd)))) < cap"
    unfolding evs fetchFeedItems_examined
    using fetchLoop_examined_length[of _ W "from" cap 0 0 "Items fd"] by simp
  have len: "length (Items fd') = length (Items fd)"
    unfolding fd' by (rule fetchFeedItems_length)
  have rest: "\<forall>k. length (examined evs) \<le> k \<and> k < length (Items fd) \<longrightarrow>
      Items fd' ! k = Items fd ! k"
    unfolding fd' evs by (simp add: fetchFeedItems_nth fetchFeedItems_selected_iff)
  from sel atmost upt stop len rest show ?thesis by blast
qed


lemmas example_defs = exampleFeed_def exampleItem_def eligible_def itemTime_def

theorem selector_takes_first_cap_eligible_witness:
  "selected (snd (fetchFeedItems exampleWorld exampleFeed 100 2)) = [0, 4]
   \<and> (0::int) \<le> 2
   \<and> int (length (selected (snd (fetchFeedItems exampleWorld exampleFeed 100 2)))) \<le> 2
   \<and> examined (snd (fetchFeedItems exampleWorld exampleFeed 100 2)) = [0 ..< 5]
   \<and> (5::nat) < length (Items exampleFeed)
   \<and> Items (fst (fetchFeedItems exampleWorld exampleFeed 100 2)) ! 5 = Items exampleFeed ! 5"
proof -
  define fd' where "fd' = fst (fetchFeedItems exampleWorld exampleFeed 100 2)"
  define evs where "evs = snd (fetchFeedItems exampleWorld exampleFeed 100 2)"
  have run: "fetchFeedItems exampleWorld exampleFeed 100 2 = (fd', evs)"
    by (simp add: fd'_def evs_def)
  note T = selector_takes_first_cap_eligible[OF run]
  from T have sel: "selected evs = [0, 4]"
    by (simp add: example_defs enumerate_eq_zip upt_rec)
  from T have atmost: "int (length (selected evs)) \<le> 2" by simp
  from T have "4 < length (examined evs)" and "\<not> 5 < length (examined evs)"
    by (simp_all add: example_defs)
  then have n: "length (examined evs) = 5" by simp
  from T have "examined evs = [0 ..< length (examined evs)]" by blast
  then have ex: "examined evs = [0 ..< 5]" unfolding n .
  have l: "(5::nat) < length (Items exampleFeed)" by (simp add: exampleFeed_def)
  from T n l have rest: "Items fd' ! 5 = Items exampleFeed ! 5" by simp
  from sel atmost ex l rest show ?thesis unfolding fd'_def evs_def by simp
qed

lemma enrich_fst:
  "fst (enrich W i it) =
     (case FromURL W i (Link it) defaultHTTPTimeout of
        Inl e \<Rightarrow> it | Inr a \<Rightarrow> it\<lparr>Content := Article_Content a\<rparr>)"
  by (simp add: enrich_def split: sum.splits)

lemma enrich_snd_mem:
  "ItemFetch i (Link it) defaultHTTPTimeout \<in> set (snd (enrich W i it))"
  "FromURL W i (Link it) defaultHTTPTimeout = Inl e \<Longrightarrow> LogItemFailed i e \<in> set (snd (enrich W i it))"
  by (auto simp: enrich_def split: sum.splits)

lemma newFeed_Items_nth:
  "k < length (Items fd) \<Longrightarrow> New_Items (newFeed fd) ! k = newItem (Items fd ! k)"
  by (simp add: newFeed_def FnMap_def)

lemma newFeed_Items_length: "length (New_Items (newFeed fd)) = length (Items fd)"
  by (simp add: newFeed_def FnMap_def)

text \<open>
  Claim C3. An item whose content is not empty on input is never selected: no unit of
  enrichment is started for it (no \<open>ItemFetch\<close> event for its position), the count the
  loop compares with the cap is the number of units started, of which it is none, and the
  item is the same after the loop; the feed handed to the serializer carries its content
  unchanged.
\<close>

theorem item_with_content_is_left_alone:
  assumes "fetchFeedItems W fd from cap = (fd', evs)"
    and "k < length (Items fd)"
    and "Content (Items fd ! k) \<noteq> []"
  shows "k \<notin> set (selected evs)
       \<and> (\<forall>l t. ItemFetch k l t \<notin> set evs)
       \<and> LogAllFetched (int (length (selected evs))) \<in> set evs
       \<and> Items fd' ! k = Items fd ! k
       \<and> Out_Content (New_Items (newFeed fd') ! k) = Content (Items fd ! k)"
proof -
  have fd': "fd' = fst (fetchFeedItems W fd from cap)"
    and evs: "evs = snd (fetchFeedItems W fd from cap)"
    using assms(1) by simp_all
  have notsel: "k \<notin> set (selected evs)"
    unfolding evs using assms(3) by (simp add: fetchFeedItems_selected_iff eligible_def)
  then have nofetch: "\<forall>l t. ItemFetch k l t \<notin> set evs"
    by (simp add: in_selected_iff)
  have cnt: "LogAllFetched (int (length (selected evs))) \<in> set evs"
    unfolding evs by (rule fetchFeedItems_count)
  have same: "Items fd' ! k = Items fd ! k"
    using notsel assms(2) unfolding fd' evs by (simp add: fetchFeedItems_nth)
  have "k < length (Items fd')"
    unfolding fd' using assms(2) by (simp add: fetchFeedItems_length)
  then have out: "Out_Content (New_Items (newFeed fd') ! k) = Content (Items fd ! k)"
    using same by (simp add: newFeed_Items_nth newItem_def)
  from notsel nofetch cnt same out show ?thesis by blast
qed

theorem item_with_content_is_left_alone_witness:
  "(1::nat) < length (Items exampleFeed)
   \<and> Content (Items exampleFeed ! 1) \<noteq> []
   \<and> 1 \<notin> set (selected (snd (fetchFeedItems exampleWorld exampleFeed 100 2)))
   \<and> Items (fst (fetchFeedItems exampleWorld exampleFeed 100 2)) ! 1 = Items exampleFeed ! 1
   \<and> Out_Content (New_Items (newFeed (fst (fetchFeedItems exampleWorld exampleFeed 100 2))) ! 1) = ''kept''"
proof -
  define fd' where "fd' = fst (fetchFeedItems exampleWorld exampleFeed 100 2)"
  define evs where "evs = snd (fetchFeedItems exampleWorld exampleFeed 100 2)"
  have run: "fetchFeedItems exampleWorld exampleFeed 100 2 = (fd', evs)"
    by (simp add: fd'_def evs_def)
  have k: "(1::nat) < length (Items exampleFeed)" by (simp add: exampleFeed_def)
  have c: "Content (Items exampleFeed ! 1) \<noteq> []" by (simp add: example_defs)
  note T = item_with_content_is_left_alone[OF run k c]
  have v: "Content (Items exampleFeed ! 1) = ''kept''" by (simp add: example_defs)
  from T k c v show ?thesis unfolding fd'_def evs_def by simp
qed

text \<open>
  Claim C4. The time of an item is its updated time when that is set, else its published
  time, else none. An item is selected exactly when the loop reaches it, its content is
  empty and it has a time \<open>t\<close> with \<open>from \<le> t\<close>: one with no time is never selected, one
  whose time is strictly before \<open>from\<close> is never selected, and one whose time equals
  \<open>from\<close> is. The skipped items are not counted: the count is the number of units started.
\<close>

theorem item_time_decides_selection:
  assumes "fetchFeedItems W fd from cap = (fd', evs)"
    and "k < length (Items fd)"
  shows "itemTime (Items fd ! k) =
           (case UpdatedParsed (Items fd ! k) of
              Some u \<Rightarrow> Some u | None \<Rightarrow> PublishedParsed (Items fd ! k))
       \<and> (k \<in> set (selected evs) \<longleftrightarrow>
            k < length (examined evs) \<and> Content (Items fd ! k) = [] \<and>
            (\<exists>t. itemTime (Items fd ! k) = Some t \<and> from \<le> t))
       \<and> (itemTime (Items fd ! k) = None \<longrightarrow> k \<notin> set (selected evs))
       \<and> (\<forall>t. itemTime (Items fd ! k) = Some t \<and> t < from \<longrightarrow> k \<notin> set (selected evs))
       \<and> (k < length (examined evs) \<and> Content (Items fd ! k) = [] \<and>
            itemTime (Items fd ! k) = Some from \<longrightarrow> k \<in> set (selected evs))
       \<and> LogAllFetched (int (length (selected evs))) \<in> set evs"
proof -
  have evs: "evs = snd (fetchFeedItems W fd from cap)"
    using assms(1) by simp
  have res: "itemTime (Items fd ! k) =
      (case UpdatedParsed (Items fd ! k) of
         Some u \<Rightarrow> Some u | None \<Rightarrow> PublishedParsed (Items fd ! k))"
    by (simp add: itemTime_def split: option.splits)
  have iff: "k \<in> set (selected evs) \<longleftrightarrow>
      k < length (examined evs) \<and> Content (Items fd ! k) = [] \<and>
      (\<exists>t. itemTime (Items fd ! k) = Some t \<and> from \<le> t)"
    unfolding evs using assms(2)
    by (simp add: fetchFeedItems_selected_iff eligible_iff not_less)
  have cnt: "LogAllFetched (int (length (selected evs))) \<in> set evs"
    unfolding evs by (rule fetchFeedItems_count)
  from iff have none: "itemTime (Items fd ! k) = None \<longrightarrow> k \<notin> set (selected evs)"
    by simp
  from iff have early: "\<forall>t. itemTime (Items fd ! k) = Some t \<and> t < from \<longrightarrow> k \<notin> set (selected evs)"
    by auto
  from iff have eq: "k < length (examined evs) \<and> Content (Items fd ! k) = [] \<and>
      itemTime (Items fd ! k) = Some from \<longrightarrow> k \<in> set (selected evs)"
    by simp
  from res iff none early eq cnt show ?thesis by blast
qed


theorem item_time_decides_selection_witness:
  "(0::nat) < length (Items exampleFeed)
   \<and> UpdatedParsed (Items exampleFeed ! 0) = Some 100
   \<and> PublishedParsed (Items exampleFeed ! 0) = Some 50
   \<and> itemTime (Items exampleFeed ! 0) = Some 100
   \<and> 0 \<in> set (selected (snd (fetchFeedItems exampleWorld exampleFeed 100 2)))
   \<and> itemTime (Items exampleFeed ! 2) = None
   \<and> 2 \<notin> set (selected (snd (fetchFeedItems exampleWorld exampleFeed 100 2)))
   \<and> itemTime (Items exampleFeed ! 3) = Some 50
   \<and> 3 \<notin> set (selected (snd (fetchFeedItems exampleWorld exampleFeed 100 2)))"
proof -
  define fd' where "fd' = fst (fetchFeedItems exampleWorld exampleFeed 100 2)"
  define evs where "evs = snd (fetchFeedItems exampleWorld exampleFeed 100 2)"
  have run: "fetchFeedItems exampleWorld exampleFeed 100 2 = (fd', evs)"
    by (simp add: fd'_def evs_def)
  have k0: "(0::nat) < length (Items exampleFeed)"
    and k2: "(2::nat) < length (Items exampleFeed)"
    and k3: "(3::nat) < length (Items exampleFeed)"
    by (simp_all add: exampleFeed_def)
  have ex: "0 < length (examined evs)"
    unfolding evs_def fetchFeedItems_examined
    using fetchLoop_examined_length[of 0 exampleWorld 100 2 0 0 "Items exampleFeed"]
    by (simp add: exampleFeed_def)
  have t0: "itemTime (Items exampleFeed ! 0) = Some 100"
    and u0: "UpdatedParsed (Items exampleFeed ! 0) = Some 100"
    and p0: "PublishedParsed (Items exampleFeed ! 0) = Some 50"
    and c0: "Content (Items exampleFeed ! 0) = []"
    and t2: "itemTime (Items exampleFeed ! 2) = None"
    and t3: "itemTime (Items exampleFeed ! 3) = Some 50"
    by (simp_all add: example_defs)
  from item_time_decides_selection[OF run k0] ex t0 c0
  have s0: "0 \<in> set (selected evs)" by simp
  from item_time_decides_selection[OF run k2] t2
  have s2: "2 \<notin> set (selected evs)" by simp
  from item_time_decides_selection[OF run k3] t3
  have s3: "3 \<notin> set (selected evs)" by simp
  from k0 u0 p0 t0 s0 t2 s2 t3 s3 show ?thesis unfolding evs_def by simp
qed

lemma fetchLoop_unit_events:
  "k < length xs \<Longrightarrow>
   i + k \<in> set (selected (snd (snd (fetchLoop W from cap i count xs)))) \<Longrightarrow>
   set (snd (enrich W (i + k) (xs ! k))) \<subseteq> set (snd (snd (fetchLoop W from cap i count xs)))"
proof (induction xs arbitrary: i count k)
  case Nil
  then show ?case by simp
next
  case (Cons it rest)
  have notin: "\<And>c. i \<notin> set (selected (snd (snd (fetchLoop W from cap (Suc i) c rest))))"
    using selected_range[of i W "from" cap "Suc i" _ rest] by auto
  show ?case
  proof (cases "count \<ge> cap")
    case True
    with Cons.prems show ?thesis by (simp add: selected_Cons)
  next
    case False
    show ?thesis
    proof (cases "eligible from it")
      case True
      show ?thesis
      proof (cases k)
        case 0
        then show ?thesis unfolding fetchLoop_step using False True by simp
      next
        case (Suc k')
        with Cons.prems False True
        have "Suc i + k' \<in> set (selected (snd (snd (fetchLoop W from cap (Suc i) (count + 1) rest))))"
          unfolding fetchLoop_step by (simp add: enrich_events)
        moreover from Cons.prems Suc have "k' < length rest" by simp
        ultimately have "set (snd (enrich W (Suc i + k') (rest ! k')))
            \<subseteq> set (snd (snd (fetchLoop W from cap (Suc i) (count + 1) rest)))"
          by (rule Cons.IH[rotated])
        then show ?thesis unfolding fetchLoop_step Suc using False True by auto
      qed
    next
      case ne: False
      show ?thesis
      proof (cases k)
        case 0
        with Cons.prems False ne show ?thesis
          unfolding fetchLoop_step by (auto simp: selected_Cons notin split: if_splits)
      next
        case (Suc k')
        with Cons.prems False ne
        have "Suc i + k' \<in> set (selected (snd (snd (fetchLoop W from cap (Suc i) count rest))))"
          unfolding fetchLoop_step by (auto simp: selected_Cons split: if_splits)
        moreover from Cons.prems Suc have "k' < length rest" by simp
        ultimately have "set (snd (enrich W (Suc i + k') (rest ! k')))
            \<subseteq> set (snd (snd (fetchLoop W from cap (Suc i) count rest)))"
          by (rule Cons.IH[rotated])
        then show ?thesis unfolding fetchLoop_step Suc using False ne by auto
      qed
    qed
  qed
qed

lemma fetchLoop_ItemFetch:
  "ItemFetch j l t \<in> set (snd (snd (fetchLoop W from cap i count xs))) \<Longrightarrow>
     i \<le> j \<and> j < i + length xs \<and> l = Link (xs ! (j - i)) \<and> t = defaultHTTPTimeout"
proof (induction xs arbitrary: i count)
  case Nil
  then show ?case by simp
next
  case (Cons it rest)
  have unit: "ItemFetch j l t \<in> set (snd (enrich W i it)) \<Longrightarrow>
      j = i \<and> l = Link it \<and> t = defaultHTTPTimeout"
    by (auto simp: enrich_def split: sum.splits)
  have tl: "\<And>c. ItemFetch j l t \<in> set (snd (snd (fetchLoop W from cap (Suc i) c rest))) \<Longrightarrow>
      i \<le> j \<and> j < i + length (it # rest) \<and> l = Link ((it # rest) ! (j - i)) \<and> t = defaultHTTPTimeout"
  proof -
    fix c
    assume "ItemFetch j l t \<in> set (snd (snd (fetchLoop W from cap (Suc i) c rest)))"
    from Cons.IH[OF this] show "i \<le> j \<and> j < i + length (it # rest) \<and>
        l = Link ((it # rest) ! (j - i)) \<and> t = defaultHTTPTimeout"
      by (auto simp: Suc_diff_le)
  qed
  from Cons.prems show ?case
    unfolding fetchLoop_step using unit tl
    by (auto split: if_splits)
qed

lemma fetchFeedItems_other_fields:
  "FeedType (fst (fetchFeedItems W fd from cap)) = FeedType fd"
  "Feed_Title (fst (fetchFeedItems W fd from cap)) = Feed_Title fd"
  by (simp_all add: fetchFeedItems_fst)

lemma serveFeed_fetched:
  "ParseURLWithContext W (getRandUserAgent W) u = Inr fd \<Longrightarrow>
   serveFeed W w u ft cap =
     (fst (serialize W w (FeedType fd) (newFeed (fst (fetchFeedItems W fd ft cap)))),
      FeedFetch (getRandUserAgent W) u # snd (fetchFeedItems W fd ft cap) @
        snd (serialize W w (FeedType fd) (newFeed (fst (fetchFeedItems W fd ft cap)))))"
  by (simp add: serveFeed_def fetchFeed_def case_prod_unfold fetchFeedItems_other_fields)

lemma serveFeed_failed:
  "ParseURLWithContext W (getRandUserAgent W) u = Inl e \<Longrightarrow>
   serveFeed W w u ft cap = (w, [FeedFetch (getRandUserAgent W) u])"
  by (simp add: serveFeed_def fetchFeed_def)

lemma example_selected:
  "selected (snd (fetchFeedItems exampleWorld exampleFeed 100 2)) = [0, 4]"
  unfolding fetchFeedItems_selected fetchLoop_selected
  by (simp add: example_defs enumerate_eq_zip upt_rec)

section \<open>Properties of the handler\<close>

lemma fetchLoop_events_kind:
  "e \<in> set (snd (snd (fetchLoop W from cap i count xs))) \<Longrightarrow>
     (\<forall>ua u. e \<noteq> FeedFetch ua u) \<and> (\<forall>f n. e \<noteq> Emit f n)"
proof (induction xs arbitrary: i count)
  case Nil
  then show ?case by simp
next
  case (Cons it rest)
  have unit: "e \<in> set (snd (enrich W i it)) \<Longrightarrow>
      (\<forall>ua u. e \<noteq> FeedFetch ua u) \<and> (\<forall>f n. e \<noteq> Emit f n)"
    by (auto simp: enrich_def split: sum.splits)
  from Cons.prems show ?case
    unfolding fetchLoop_step using unit Cons.IH
    by (auto split: if_splits)
qed

lemma fetchFeedItems_events_kind:
  "e \<in> set (snd (fetchFeedItems W fd from cap)) \<Longrightarrow>
     (\<forall>ua u. e \<noteq> FeedFetch ua u) \<and> (\<forall>f n. e \<noteq> Emit f n)"
  unfolding fetchFeedItems_snd
  using fetchLoop_events_kind[of e W "from" cap 0 0 "Items fd"] by auto

lemma fetchFeedItems_ItemFetch:
  "ItemFetch j l t \<in> set (snd (fetchFeedItems W fd from cap)) \<Longrightarrow>
     j < length (Items fd) \<and> l = Link (Items fd ! j) \<and> t = defaultHTTPTimeout"
  unfolding fetchFeedItems_snd using fetchLoop_ItemFetch[of j l t W "from" cap 0 0 "Items fd"] by auto

lemma serialize_events:
  "e \<in> set (snd (serialize W w ft nf)) \<Longrightarrow> \<exists>fmt. e = Emit fmt nf \<and> ft = formatTag fmt"
  by (auto simp: serialize_def Let_def split: if_splits sum.splits)


lemma serialize_known:
  "snd (serialize W w (formatTag fmt) nf) = [Emit fmt nf]"
  by (cases fmt) (simp_all add: serialize_def Let_def split: sum.splits)

lemma serveFeed_FeedFetch:
  "FeedFetch ua' u' \<in> set (snd (serveFeed W w u ft cap)) \<longleftrightarrow> ua' = getRandUserAgent W \<and> u' = u"
proof (cases "ParseURLWithContext W (getRandUserAgent W) u")
  case (Inl e)
  then show ?thesis by (auto simp: serveFeed_failed)
next
  case (Inr fd)
  then show ?thesis
    using fetchFeedItems_events_kind[of "FeedFetch ua' u'" W fd ft cap]
      serialize_events[of "FeedFetch ua' u'" W w "FeedType fd"]
    by (auto simp: serveFeed_fetched)
qed

lemma serveFeed_Emit:
  "Emit fmt nf \<in> set (snd (serveFeed W w u ft cap)) \<Longrightarrow>
     \<exists>fd. ParseURLWithContext W (getRandUserAgent W) u = Inr fd \<and> FeedType fd = formatTag fmt \<and>
          nf = newFeed (fst (fetchFeedItems W fd ft cap))"
proof (cases "ParseURLWithContext W (getRandUserAgent W) u")
  case (Inl e)
  assume "Emit fmt nf \<in> set (snd (serveFeed W w u ft cap))"
  with Inl show ?thesis by (simp add: serveFeed_failed)
next
  case (Inr fd)
  assume "Emit fmt nf \<in> set (snd (serveFeed W w u ft cap))"
  with Inr show ?thesis
    using fetchFeedItems_events_kind[of "Emit fmt nf" W fd ft cap]
      serialize_events[of "Emit fmt nf" W w "FeedType fd"]
    by (auto simp: serveFeed_fetched)
qed

lemma serveFeed_ItemFetch:
  "ItemFetch j l t \<in> set (snd (serveFeed W w u ft cap)) \<Longrightarrow>
     \<exists>fd. ParseURLWithContext W (getRandUserAgent W) u = Inr fd \<and>
          j < length (Items fd) \<and> l = Link (Items fd ! j) \<and> t = defaultHTTPTimeout"
proof (cases "ParseURLWithContext W (getRandUserAgent W) u")
  case (Inl e)
  assume "ItemFetch j l t \<in> set (snd (serveFeed W w u ft cap))"
  with Inl show ?thesis by (simp add: serveFeed_failed)
next
  case (Inr fd)
  assume "ItemFetch j l t \<in> set (snd (serveFeed W w u ft cap))"
  with Inr show ?thesis
    using fetchFeedItems_ItemFetch[of j l t W fd ft cap]
      serialize_events[of "ItemFetch j l t" W w "FeedType fd"]
    by (auto simp: serveFeed_fetched)
qed

text \<open>
  Every run of the handler either stops before the feed fetch, with no event, or is
  \<open>serveFeed\<close> on the writer the parameter stage left.
\<close>

lemma processRequest_cases:
  "snd (processRequest W w req capS) = [] \<or>
   (\<exists>u ft. processRequest W w req capS =
      serveFeed W (snd (itemsCapParam W w (Query req itemsCapParamName) capS)) u ft
        (fst (itemsCapParam W w (Query req itemsCapParamName) capS)))"
  by (auto simp: processRequest_def Let_def case_prod_unfold split: sum.splits)

lemma itemsCapParam_ok:
  "vs = [] \<or> snd (strconv_Atoi W (hd vs)) = None \<Longrightarrow> snd (itemsCapParam W w vs capS) = w"
  by (cases vs) (auto simp: itemsCapParam_def split: prod.splits option.splits)


text \<open>
  Claim C9. Whenever the handler hands a feed to a serializer, exactly one feed fetch has
  been made, it returned a feed, and the title handed over is that feed's title followed
  by \<^verbatim>\<open> (repacked by go-morss)\<close>; so it is never the input title itself.
\<close>

theorem output_title_is_input_title_with_suffix:
  assumes "Emit fmt nf \<in> set (snd (processRequest W w req capS))"
  shows "\<exists>ua u fd.
           (\<forall>ua' u'. FeedFetch ua' u' \<in> set (snd (processRequest W w req capS)) \<longleftrightarrow>
                      ua' = ua \<and> u' = u)
         \<and> ParseURLWithContext W ua u = Inr fd
         \<and> New_Title nf = Feed_Title fd @ '' (repacked by go-morss)''
         \<and> New_Title nf \<noteq> Feed_Title fd"
proof -
  from assms have "snd (processRequest W w req capS) \<noteq> []" by auto
  with processRequest_cases[of W w req capS]
  obtain w1 u ft cap where run: "processRequest W w req capS = serveFeed W w1 u ft cap"
    by blast
  from assms obtain fd where fd: "ParseURLWithContext W (getRandUserAgent W) u = Inr fd"
    and nf: "nf = newFeed (fst (fetchFeedItems W fd ft cap))"
    unfolding run using serveFeed_Emit by blast
  have title: "New_Title nf = Feed_Title fd @ '' (repacked by go-morss)''"
    unfolding nf by (simp add: newFeed_def fetchFeedItems_other_fields)
  then have neq: "New_Title nf \<noteq> Feed_Title fd" by simp
  have only: "\<forall>ua' u'. FeedFetch ua' u' \<in> set (snd (processRequest W w req capS)) \<longleftrightarrow>
      ua' = getRandUserAgent W \<and> u' = u"
    unfolding run by (simp add: serveFeed_FeedFetch)
  from only fd title neq show ?thesis by blast
qed

lemma example_run:
  "processRequest exampleWorld newResponse exampleRequest defaultItemsCap =
     serveFeed exampleWorld newResponse ''https://example.com/feed'' (1000 - defaultFromDaysAgo) 10"
  by (simp add: processRequest_def exampleRequest_def strings_TrimPrefix_def isValidUrl_def
      exampleWorld_def itemsCapParam_def defaultItemsCap_def)

lemma badCap_run:
  "processRequest exampleWorld newResponse badCapRequest defaultItemsCap =
     serveFeed exampleWorld (http_Error newResponse (cantParse fromTimeParamName) 400)
       ''https://example.com/feed'' (1000 - defaultFromDaysAgo) 0"
  by (simp add: processRequest_def badCapRequest_def strings_TrimPrefix_def isValidUrl_def
      exampleWorld_def itemsCapParam_def fromTimeParamName_def itemsCapParamName_def)

lemma example_parse:
  "ParseURLWithContext exampleWorld ua u = Inr exampleFeed"
  by (simp add: exampleWorld_def)

lemma fetchFeedItems_cap_zero:
  "Items fd \<noteq> [] \<Longrightarrow> fetchFeedItems W fd from 0 = (fd, [LogCapReached, LogAllFetched 0])"
  by (cases "Items fd") (simp_all add: fetchFeedItems_def)

lemma http_Error_new:
  "http_Error newResponse msg code =
     \<lparr>Header = [''Content-Type'' \<mapsto> ''text/plain; charset=utf-8'',
                ''X-Content-Type-Options'' \<mapsto> ''nosniff''],
      sent = Some (code, [''Content-Type'' \<mapsto> ''text/plain; charset=utf-8'',
                ''X-Content-Type-Options'' \<mapsto> ''nosniff'']),
      body = msg @ [CHR 0x0A]\<rparr>"
  by (simp add: http_Error_def Fprintln_def Write_def WriteHeader_def Header_Set_def
      Header_Del_def newResponse_def Let_def)

theorem output_title_is_input_title_with_suffix_witness:
  "Emit RSS (newFeed (fst (fetchFeedItems exampleWorld exampleFeed (1000 - defaultFromDaysAgo) 10)))
     \<in> set (snd (processRequest exampleWorld newResponse exampleRequest defaultItemsCap))
   \<and> New_Title (newFeed (fst (fetchFeedItems exampleWorld exampleFeed (1000 - defaultFromDaysAgo) 10)))
       = ''News (repacked by go-morss)''"
proof -
  define nf where "nf = newFeed (fst (fetchFeedItems exampleWorld exampleFeed (1000 - defaultFromDaysAgo) 10))"
  have em: "Emit RSS nf \<in> set (snd (processRequest exampleWorld newResponse exampleRequest defaultItemsCap))"
    unfolding example_run nf_def
    by (simp add: serveFeed_fetched[OF example_parse] exampleFeed_def
        serialize_known[where fmt = RSS, simplified])
  from output_title_is_input_title_with_suffix[OF em]
  have "New_Title nf = ''News (repacked by go-morss)''"
    by (auto simp: example_parse exampleFeed_def)
  with em show ?thesis unfolding nf_def by simp
qed

lemma Content_Type_after_write:
  "Header (Fprintln w s) k = Header w k"
  "Header (Write s w) k = Header w k"
  "Header (Header_Set k v w) k = Some v"
  by (simp_all add: Fprintln_def Write_def WriteHeader_def Header_Set_def Let_def split: option.splits)

lemma fresh_write:
  "sent w = None \<Longrightarrow> finalHeader (Write s (Header_Set k v w)) k = Some v"
  "sent w = None \<Longrightarrow> finalStatus (Write s (Header_Set k v w)) = 200"
  by (simp_all add: Write_def WriteHeader_def Header_Set_def Let_def finalHeader_def finalStatus_def)

lemma serialize_ok_fst:
  "serializedOk W fmt nf \<Longrightarrow>
     \<exists>bs. fst (serialize W w (formatTag fmt) nf) =
            Write bs (Header_Set ''Content-Type'' (contentType fmt) w)"
proof (cases fmt)
  case RSS
  assume "serializedOk W fmt nf"
  with RSS show ?thesis
    by (auto simp: serialize_def Fprintln_def split: sum.splits)
next
  case Atom
  assume "serializedOk W fmt nf"
  with Atom show ?thesis
    by (auto simp: serialize_def Fprintln_def split: sum.splits)
next
  case JSON
  assume "serializedOk W fmt nf"
  with JSON show ?thesis
    by (auto simp: serialize_def Let_def split: sum.splits)
qed


lemma serialize_content_type:
  assumes "serializedOk W fmt nf"
  shows "Header (fst (serialize W w (formatTag fmt) nf)) ''Content-Type'' = Some (contentType fmt)"
    and "sent w = None \<Longrightarrow>
         finalHeader (fst (serialize W w (formatTag fmt) nf)) ''Content-Type'' = Some (contentType fmt)
         \<and> finalStatus (fst (serialize W w (formatTag fmt) nf)) = 200"
proof -
  from serialize_ok_fst[OF assms, of w] obtain bs where
    w': "fst (serialize W w (formatTag fmt) nf) =
           Write bs (Header_Set ''Content-Type'' (contentType fmt) w)" by blast
  show "Header (fst (serialize W w (formatTag fmt) nf)) ''Content-Type'' = Some (contentType fmt)"
    unfolding w' by (simp only: Content_Type_after_write)
  show "finalHeader (fst (serialize W w (formatTag fmt) nf)) ''Content-Type'' = Some (contentType fmt)
      \<and> finalStatus (fst (serialize W w (formatTag fmt) nf)) = 200" if "sent w = None"
    unfolding w' using fresh_write[OF that] by blast
qed

lemma emitted_format_is_input_format:
  assumes "Emit fmt nf \<in> set (snd (processRequest W w req capS))"
  shows "\<exists>ua u fd. FeedFetch ua u \<in> set (snd (processRequest W w req capS))
         \<and> ParseURLWithContext W ua u = Inr fd \<and> FeedType fd = formatTag fmt"
proof -
  from assms have "snd (processRequest W w req capS) \<noteq> []" by auto
  with processRequest_cases[of W w req capS]
  obtain w1 u ft cap where run: "processRequest W w req capS = serveFeed W w1 u ft cap"
    by blast
  from assms obtain fd where "ParseURLWithContext W (getRandUserAgent W) u = Inr fd"
    and "FeedType fd = formatTag fmt"
    unfolding run using serveFeed_Emit by blast
  then show ?thesis unfolding run using serveFeed_FeedFetch by blast
qed


lemma content_type_matches_for_a_wellformed_request:
  assumes "Emit fmt nf \<in> set (snd (processRequest W w req capS))"
    and "serializedOk W fmt nf"
    and "Query req itemsCapParamName = [] \<or> snd (strconv_Atoi W (hd (Query req itemsCapParamName))) = None"
    and "sent w = None"
  shows "finalHeader (fst (processRequest W w req capS)) ''Content-Type'' = Some (contentType fmt)
       \<and> finalStatus (fst (processRequest W w req capS)) = 200"
proof -
  from assms(1) have ne: "snd (processRequest W w req capS) \<noteq> []" by auto
  have w1: "snd (itemsCapParam W w (Query req itemsCapParamName) capS) = w"
    by (rule itemsCapParam_ok[OF assms(3)])
  from processRequest_cases[of W w req capS] ne
  obtain u ft cap where run: "processRequest W w req capS = serveFeed W w u ft cap"
    unfolding w1 by blast
  from assms(1) obtain fd where fd: "ParseURLWithContext W (getRandUserAgent W) u = Inr fd"
    and tag: "FeedType fd = formatTag fmt"
    and nf: "nf = newFeed (fst (fetchFeedItems W fd ft cap))"
    unfolding run using serveFeed_Emit by blast
  have "fst (processRequest W w req capS) = fst (serialize W w (formatTag fmt) nf)"
    unfolding run serveFeed_fetched[OF fd] tag nf by simp
  then show ?thesis
    using serialize_content_type(2)[OF assms(2) assms(4)] by simp
qed

lemma serialize_rss:
  "ToRss W nf = Inr b \<Longrightarrow>
     serialize W w ''rss'' nf =
       (Fprintln (Header_Set ''Content-Type'' ''application/xml'' w) b, [Emit RSS nf])"
  by (simp add: serialize_def)

lemma serialize_atom:
  "ToAtom W nf = Inr b \<Longrightarrow>
     serialize W w ''atom'' nf =
       (Fprintln (Header_Set ''Content-Type'' ''application/xml'' w) b, [Emit Atom nf])"
  by (simp add: serialize_def)

lemma serialize_json:
  "ToJSON W nf = Inr jb \<Longrightarrow> json_Encode W jb = Inr bs \<Longrightarrow>
     serialize W w ''json'' nf =
       (Write bs (Header_Set ''Content-Type'' ''application/json'' w), [Emit JSON nf])"
  by (simp add: serialize_def)

text \<open>
  Claim C5. For a selected item the page of its link is fetched. When the fetch or the
  extraction fails, the item is the same as before and the failure is logged; only when it
  succeeds is the content replaced, by the article's content. No error leaves the unit:
  the loop returns the feed either way, and after a successful feed fetch the handler
  hands that feed, with the item as the unit left it, to the serializer of the feed's
  format and writes what the serializer returns, whatever the per-item fetches answered.
\<close>

theorem enrichment_failure_stays_local:
  assumes "fetchFeedItems W fd from cap = (fd', evs)"
    and "k \<in> set (selected evs)"
  shows "k < length (Items fd)
       \<and> ItemFetch k (Link (Items fd ! k)) defaultHTTPTimeout \<in> set evs
       \<and> (\<forall>e. FromURL W k (Link (Items fd ! k)) defaultHTTPTimeout = Inl e \<longrightarrow>
              Items fd' ! k = Items fd ! k \<and> LogItemFailed k e \<in> set evs)
       \<and> (\<forall>a. FromURL W k (Link (Items fd ! k)) defaultHTTPTimeout = Inr a \<longrightarrow>
              Items fd' ! k = (Items fd ! k)\<lparr>Content := Article_Content a\<rparr>)
       \<and> Out_Content (New_Items (newFeed fd') ! k) =
           (case FromURL W k (Link (Items fd ! k)) defaultHTTPTimeout of
              Inl e \<Rightarrow> Content (Items fd ! k) | Inr a \<Rightarrow> Article_Content a)
       \<and> (\<forall>w u. ParseURLWithContext W (getRandUserAgent W) u = Inr fd \<longrightarrow>
              serveFeed W w u from cap =
                (fst (serialize W w (FeedType fd) (newFeed fd')),
                 FeedFetch (getRandUserAgent W) u # evs @
                   snd (serialize W w (FeedType fd) (newFeed fd'))))
       \<and> (\<forall>w u fmt. ParseURLWithContext W (getRandUserAgent W) u = Inr fd \<and>
              FeedType fd = formatTag fmt \<longrightarrow>
              Emit fmt (newFeed fd') \<in> set (snd (serveFeed W w u from cap)))
       \<and> (\<forall>w u b. ParseURLWithContext W (getRandUserAgent W) u = Inr fd \<and>
              FeedType fd = ''rss'' \<and> ToRss W (newFeed fd') = Inr b \<longrightarrow>
              fst (serveFeed W w u from cap) =
                Fprintln (Header_Set ''Content-Type'' ''application/xml'' w) b)
       \<and> (\<forall>w u b. ParseURLWithContext W (getRandUserAgent W) u = Inr fd \<and>
              FeedType fd = ''atom'' \<and> ToAtom W (newFeed fd') = Inr b \<longrightarrow>
              fst (serveFeed W w u from cap) =
                Fprintln (Header_Set ''Content-Type'' ''application/xml'' w) b)
       \<and> (\<forall>w u jb bs. ParseURLWithContext W (getRandUserAgent W) u = Inr fd \<and>
              FeedType fd = ''json'' \<and> ToJSON W (newFeed fd') = Inr jb \<and>
              json_Encode W jb = Inr bs \<longrightarrow>
              fst (serveFeed W w u from cap) =
                Write bs (Header_Set ''Content-Type'' ''application/json'' w))"
proof -
  have fd': "fd' = fst (fetchFeedItems W fd from cap)"
    and evs: "evs = snd (fetchFeedItems W fd from cap)"
    using assms(1) by simp_all
  from assms(2) have k: "k < length (Items fd)"
    unfolding evs by (simp add: fetchFeedItems_selected_iff)
  from assms(2) have sel: "0 + k \<in> set (selected (snd (snd (fetchLoop W from cap 0 0 (Items fd)))))"
    unfolding evs fetchFeedItems_selected by simp
  from fetchLoop_unit_events[OF k sel]
  have unit: "set (snd (enrich W k (Items fd ! k))) \<subseteq> set evs"
    unfolding evs fetchFeedItems_snd by auto
  have nth: "Items fd' ! k = fst (enrich W k (Items fd ! k))"
    using assms(2) k unfolding fd' evs by (simp add: fetchFeedItems_nth)
  have fetch: "ItemFetch k (Link (Items fd ! k)) defaultHTTPTimeout \<in> set evs"
    using unit enrich_snd_mem(1) by blast
  have fail: "\<forall>e. FromURL W k (Link (Items fd ! k)) defaultHTTPTimeout = Inl e \<longrightarrow>
      Items fd' ! k = Items fd ! k \<and> LogItemFailed k e \<in> set evs"
    using unit enrich_snd_mem(2) by (auto simp: nth enrich_fst)
  have ok: "\<forall>a. FromURL W k (Link (Items fd ! k)) defaultHTTPTimeout = Inr a \<longrightarrow>
      Items fd' ! k = (Items fd ! k)\<lparr>Content := Article_Content a\<rparr>"
    by (simp add: nth enrich_fst)
  have "k < length (Items fd')"
    unfolding fd' using k by (simp add: fetchFeedItems_length)
  then have out: "Out_Content (New_Items (newFeed fd') ! k) =
      (case FromURL W k (Link (Items fd ! k)) defaultHTTPTimeout of
         Inl e \<Rightarrow> Content (Items fd ! k) | Inr a \<Rightarrow> Article_Content a)"
    by (simp add: newFeed_Items_nth newItem_def nth enrich_fst split: sum.splits)
  have serve: "\<forall>w u. ParseURLWithContext W (getRandUserAgent W) u = Inr fd \<longrightarrow>
      serveFeed W w u from cap =
        (fst (serialize W w (FeedType fd) (newFeed fd')),
         FeedFetch (getRandUserAgent W) u # evs @
           snd (serialize W w (FeedType fd) (newFeed fd')))"
    unfolding fd' evs by (simp add: serveFeed_fetched)
  have emit: "\<forall>w u fmt. ParseURLWithContext W (getRandUserAgent W) u = Inr fd \<and>
      FeedType fd = formatTag fmt \<longrightarrow>
      Emit fmt (newFeed fd') \<in> set (snd (serveFeed W w u from cap))"
    using serve by (simp add: serialize_known)
  have rss: "\<forall>w u b. ParseURLWithContext W (getRandUserAgent W) u = Inr fd \<and>
      FeedType fd = ''rss'' \<and> ToRss W (newFeed fd') = Inr b \<longrightarrow>
      fst (serveFeed W w u from cap) =
        Fprintln (Header_Set ''Content-Type'' ''application/xml'' w) b"
    using serve by (simp add: serialize_rss)
  have atom: "\<forall>w u b. ParseURLWithContext W (getRandUserAgent W) u = Inr fd \<and>
      FeedType fd = ''atom'' \<and> ToAtom W (newFeed fd') = Inr b \<longrightarrow>
      fst (serveFeed W w u from cap) =
        Fprintln (Header_Set ''Content-Type'' ''application/xml'' w) b"
    using serve by (simp add: serialize_atom)
  have json: "\<forall>w u jb bs. ParseURLWithContext W (getRandUserAgent W) u = Inr fd \<and>
      FeedType fd = ''json'' \<and> ToJSON W (newFeed fd') = Inr jb \<and>
      json_Encode W jb = Inr bs \<longrightarrow>
      fst (serveFeed W w u from cap) =
        Write bs (Header_Set ''Content-Type'' ''application/json'' w)"
    using serve by (simp add: serialize_json)
  from k fetch fail ok out serve emit rss atom json show ?thesis by blast
qed


theorem enrichment_failure_stays_local_witness:
  "4 \<in> set (selected (snd (fetchFeedItems exampleWorld exampleFeed 100 2)))
   \<and> FromURL exampleWorld 4 (Link (Items exampleFeed ! 4)) defaultHTTPTimeout = Inl ''timeout''
   \<and> Items (fst (fetchFeedItems exampleWorld exampleFeed 100 2)) ! 4 = Items exampleFeed ! 4
   \<and> LogItemFailed 4 ''timeout'' \<in> set (snd (fetchFeedItems exampleWorld exampleFeed 100 2))
   \<and> Out_Content (New_Items (newFeed (fst (fetchFeedItems exampleWorld exampleFeed 100 2))) ! 4) = []
   \<and> 0 \<in> set (selected (snd (fetchFeedItems exampleWorld exampleFeed 100 2)))
   \<and> FromURL exampleWorld 0 (Link (Items exampleFeed ! 0)) defaultHTTPTimeout =
       Inr \<lparr>Article_Content = ''full text''\<rparr>
   \<and> Content (Items (fst (fetchFeedItems exampleWorld exampleFeed 100 2)) ! 0) = ''full text''
   \<and> Out_Content (New_Items (newFeed (fst (fetchFeedItems exampleWorld exampleFeed 100 2))) ! 0)
       = ''full text''
   \<and> ParseURLWithContext exampleWorld (getRandUserAgent exampleWorld) ''https://example.com/feed'' =
       Inr exampleFeed
   \<and> FeedType exampleFeed = ''rss''
   \<and> ToRss exampleWorld (newFeed (fst (fetchFeedItems exampleWorld exampleFeed 100 2))) = Inr ''<rss/>''
   \<and> Emit RSS (newFeed (fst (fetchFeedItems exampleWorld exampleFeed 100 2)))
       \<in> set (snd (serveFeed exampleWorld newResponse ''https://example.com/feed'' 100 2))
   \<and> fst (serveFeed exampleWorld newResponse ''https://example.com/feed'' 100 2) =
       Fprintln (Header_Set ''Content-Type'' ''application/xml'' newResponse) ''<rss/>''
   \<and> body (fst (serveFeed exampleWorld newResponse ''https://example.com/feed'' 100 2)) =
       ''<rss/>'' @ [CHR 0x0A]
   \<and> finalStatus (fst (serveFeed exampleWorld newResponse ''https://example.com/feed'' 100 2)) = 200"
proof -
  define fd' where "fd' = fst (fetchFeedItems exampleWorld exampleFeed 100 2)"
  define evs where "evs = snd (fetchFeedItems exampleWorld exampleFeed 100 2)"
  have run: "fetchFeedItems exampleWorld exampleFeed 100 2 = (fd', evs)"
    by (simp add: fd'_def evs_def)
  have s4: "4 \<in> set (selected evs)" and s0: "0 \<in> set (selected evs)"
    unfolding evs_def example_selected by simp_all
  have f4: "FromURL exampleWorld 4 (Link (Items exampleFeed ! 4)) defaultHTTPTimeout = Inl ''timeout''"
    and f0: "FromURL exampleWorld 0 (Link (Items exampleFeed ! 0)) defaultHTTPTimeout =
      Inr \<lparr>Article_Content = ''full text''\<rparr>"
    by (simp_all add: exampleWorld_def exampleFeed_def exampleItem_def)
  have c4: "Content (Items exampleFeed ! 4) = []"
    by (simp add: exampleFeed_def exampleItem_def)
  have p: "ParseURLWithContext exampleWorld (getRandUserAgent exampleWorld) ''https://example.com/feed'' =
      Inr exampleFeed"
    by (simp add: exampleWorld_def)
  have tag: "FeedType exampleFeed = ''rss''" and tag': "FeedType exampleFeed = formatTag RSS"
    by (simp_all add: exampleFeed_def)
  have ser: "ToRss exampleWorld (newFeed fd') = Inr ''<rss/>''"
    by (simp add: exampleWorld_def)
  note T4 = enrichment_failure_stays_local[OF run s4]
  note T0 = enrichment_failure_stays_local[OF run s0]
  from T4 f4 have a: "Items fd' ! 4 = Items exampleFeed ! 4"
    and b: "LogItemFailed 4 ''timeout'' \<in> set evs" by simp_all
  from T4 f4 c4 have o4: "Out_Content (New_Items (newFeed fd') ! 4) = []" by simp
  from T0 f0 have c: "Content (Items fd' ! 0) = ''full text''" by simp
  from T0 f0 have o0: "Out_Content (New_Items (newFeed fd') ! 0) = ''full text''" by simp
  from T4 p tag' have em: "Emit RSS (newFeed fd')
      \<in> set (snd (serveFeed exampleWorld newResponse ''https://example.com/feed'' 100 2))"
    by blast
  from T4 p tag ser have w: "fst (serveFeed exampleWorld newResponse ''https://example.com/feed'' 100 2) =
      Fprintln (Header_Set ''Content-Type'' ''application/xml'' newResponse) ''<rss/>''"
    by blast
  have bd: "body (fst (serveFeed exampleWorld newResponse ''https://example.com/feed'' 100 2)) =
      ''<rss/>'' @ [CHR 0x0A]"
    unfolding w
    by (simp add: Fprintln_def Write_def WriteHeader_def Header_Set_def newResponse_def Let_def)
  have st: "finalStatus (fst (serveFeed exampleWorld newResponse ''https://example.com/feed'' 100 2)) = 200"
    unfolding w
    by (simp add: Fprintln_def Write_def WriteHeader_def Header_Set_def newResponse_def Let_def
        finalStatus_def)
  from s4 f4 a b o4 s0 f0 c o0 p tag ser em w bd st show ?thesis
    unfolding fd'_def evs_def by blast
qed

text \<open>
  The branch for a malformed \<^verbatim>\<open>items_cap\<close> in general: on any request with a valid
  feed URL and no \<^verbatim>\<open>from_time\<close>, when \<^verbatim>\<open>strconv.Atoi\<close> returns an error together
  with the value \<open>n\<close>, the handler is \<open>serveFeed\<close> on the writer that already holds the 400,
  with the cap \<open>n\<close>, and the feed fetch is made.
\<close>

lemma malformed_items_cap_goes_on:
  assumes "strings_TrimPrefix (Path req) ''/'' = p"
    and "p \<noteq> []" and "p \<noteq> ''favicon.ico''"
    and "isValidUrl W (''https://'' @ p)"
    and "Query req fromTimeParamName = []"
    and "Query req itemsCapParamName = v # vs"
    and "strconv_Atoi W v = (n, Some e)"
  shows "processRequest W w req capS =
           serveFeed W (http_Error w (cantParse fromTimeParamName) 400)
             (''https://'' @ p) (now W - defaultFromDaysAgo) n"
    and "FeedFetch (getRandUserAgent W) (''https://'' @ p) \<in> set (snd (processRequest W w req capS))"
proof -
  show run: "processRequest W w req capS =
      serveFeed W (http_Error w (cantParse fromTimeParamName) 400)
        (''https://'' @ p) (now W - defaultFromDaysAgo) n"
    using assms by (simp add: processRequest_def itemsCapParam_def)
  show "FeedFetch (getRandUserAgent W) (''https://'' @ p) \<in> set (snd (processRequest W w req capS))"
    unfolding run by (simp add: serveFeed_FeedFetch)
qed

text \<open>
  Claim C1, at the request \<^verbatim>\<open>GET /example.com/feed?items_cap=abc\<close>:
  \<^verbatim>\<open>strconv.Atoi\<close> fails, the handler sends the 400 and, having no \<^verbatim>\<open>return\<close> there,
  fetches the feed all the same, runs the item loop with the cap 0 that \<^verbatim>\<open>Atoi\<close>
  returned, serializes the feed and appends it to the error message, which names
  \<^verbatim>\<open>from_time\<close>.
\<close>

theorem malformed_items_cap_still_fetches:
  "strconv_Atoi exampleWorld (Query badCapRequest itemsCapParamName ! 0) = (0, Some ''invalid syntax'')
   \<and> snd (processRequest exampleWorld newResponse badCapRequest defaultItemsCap) =
       [FeedFetch (getRandUserAgent exampleWorld) ''https://example.com/feed'',
        LogCapReached, LogAllFetched 0, Emit RSS (newFeed exampleFeed)]
   \<and> finalStatus (fst (processRequest exampleWorld newResponse badCapRequest defaultItemsCap)) = 400
   \<and> body (fst (processRequest exampleWorld newResponse badCapRequest defaultItemsCap)) =
       ''Can't parse `from_time` query param value'' @ [CHR 0x0A] @ ''<rss/>'' @ [CHR 0x0A]"
proof -
  have items: "Items exampleFeed \<noteq> []" by (simp add: exampleFeed_def)
  have ser: "serialize exampleWorld (http_Error newResponse (cantParse fromTimeParamName) 400)
      (FeedType exampleFeed) (newFeed exampleFeed) =
      (Fprintln (Header_Set ''Content-Type'' ''application/xml''
          (http_Error newResponse (cantParse fromTimeParamName) 400)) ''<rss/>'',
       [Emit RSS (newFeed exampleFeed)])"
    by (simp add: serialize_def exampleFeed_def exampleWorld_def)
  have a: "strconv_Atoi exampleWorld (Query badCapRequest itemsCapParamName ! 0) = (0, Some ''invalid syntax'')"
    by (simp add: exampleWorld_def badCapRequest_def itemsCapParamName_def)
  have b: "snd (processRequest exampleWorld newResponse badCapRequest defaultItemsCap) =
      [FeedFetch (getRandUserAgent exampleWorld) ''https://example.com/feed'',
       LogCapReached, LogAllFetched 0, Emit RSS (newFeed exampleFeed)]"
    unfolding badCap_run serveFeed_fetched[OF example_parse] fetchFeedItems_cap_zero[OF items]
    by (simp add: ser)
  have w: "fst (processRequest exampleWorld newResponse badCapRequest defaultItemsCap) =
      Fprintln (Header_Set ''Content-Type'' ''application/xml''
          (http_Error newResponse (cantParse fromTimeParamName) 400)) ''<rss/>''"
    unfolding badCap_run serveFeed_fetched[OF example_parse] fetchFeedItems_cap_zero[OF items]
    by (simp add: ser)
  have c: "finalStatus (fst (processRequest exampleWorld newResponse badCapRequest defaultItemsCap)) = 400"
    unfolding w http_Error_new
    by (simp add: Fprintln_def Write_def WriteHeader_def Header_Set_def finalStatus_def Let_def)
  have d: "body (fst (processRequest exampleWorld newResponse badCapRequest defaultItemsCap)) =
      ''Can't parse `from_time` query param value'' @ [CHR 0x0A] @ ''<rss/>'' @ [CHR 0x0A]"
    unfolding w http_Error_new
    by (simp add: Fprintln_def Write_def WriteHeader_def Header_Set_def Let_def cantParse_def
        fromTimeParamName_def)
  from a b c d show ?thesis by blast
qed

text \<open>
  Claim C7, at \<^verbatim>\<open>GET /example.com/feed?items_cap=abc\<close> with an RSS feed: the feed is
  fetched and serialized as RSS, and the handler sets \<^verbatim>\<open>Content-Type: application/xml\<close>
  in its header map, but the status line and the headers went out with the 400 of the
  malformed \<^verbatim>\<open>items_cap\<close>: the response is a 400 of type \<^verbatim>\<open>text/plain\<close>.
\<close>

theorem malformed_items_cap_spoils_content_type:
  "FeedType exampleFeed = formatTag RSS
   \<and> Emit RSS (newFeed exampleFeed)
       \<in> set (snd (processRequest exampleWorld newResponse badCapRequest defaultItemsCap))
   \<and> serializedOk exampleWorld RSS (newFeed exampleFeed)
   \<and> Header (fst (processRequest exampleWorld newResponse badCapRequest defaultItemsCap)) ''Content-Type''
       = Some ''application/xml''
   \<and> finalHeader (fst (processRequest exampleWorld newResponse badCapRequest defaultItemsCap)) ''Content-Type''
       = Some ''text/plain; charset=utf-8''
   \<and> finalStatus (fst (processRequest exampleWorld newResponse badCapRequest defaultItemsCap)) = 400"
proof -
  have items: "Items exampleFeed \<noteq> []" by (simp add: exampleFeed_def)
  have ser: "serialize exampleWorld (http_Error newResponse (cantParse fromTimeParamName) 400)
      (FeedType exampleFeed) (newFeed exampleFeed) =
      (Fprintln (Header_Set ''Content-Type'' ''application/xml''
          (http_Error newResponse (cantParse fromTimeParamName) 400)) ''<rss/>'',
       [Emit RSS (newFeed exampleFeed)])"
    by (simp add: serialize_def exampleFeed_def exampleWorld_def)
  have a: "FeedType exampleFeed = formatTag RSS" by (simp add: exampleFeed_def)
  have b: "Emit RSS (newFeed exampleFeed)
      \<in> set (snd (processRequest exampleWorld newResponse badCapRequest defaultItemsCap))"
    unfolding badCap_run serveFeed_fetched[OF example_parse] fetchFeedItems_cap_zero[OF items]
    by (simp add: ser)
  have c: "serializedOk exampleWorld RSS (newFeed exampleFeed)"
    by (simp add: exampleWorld_def)
  have w: "fst (processRequest exampleWorld newResponse badCapRequest defaultItemsCap) =
      Fprintln (Header_Set ''Content-Type'' ''application/xml''
          (http_Error newResponse (cantParse fromTimeParamName) 400)) ''<rss/>''"
    unfolding badCap_run serveFeed_fetched[OF example_parse] fetchFeedItems_cap_zero[OF items]
    by (simp add: ser)
  have d: "Header (fst (processRequest exampleWorld newResponse badCapRequest defaultItemsCap)) ''Content-Type''
      = Some ''application/xml''"
    unfolding w by (simp only: Content_Type_after_write)
  have e: "finalHeader (fst (processRequest exampleWorld newResponse badCapRequest defaultItemsCap)) ''Content-Type''
      = Some ''text/plain; charset=utf-8''"
    unfolding w http_Error_new
    by (simp add: Fprintln_def Write_def WriteHeader_def Header_Set_def finalHeader_def Let_def)
  have f: "finalStatus (fst (processRequest exampleWorld newResponse badCapRequest defaultItemsCap)) = 400"
    unfolding w http_Error_new
    by (simp add: Fprintln_def Write_def WriteHeader_def Header_Set_def finalStatus_def Let_def)
  from a b c d e f show ?thesis by blast
qed




text \<open>
  Claim C8, as stated, fails: the handler run on \<^verbatim>\<open>GET /example.com/feed\<close> makes a
  per-item fetch, and that fetch carries no client identity from the pool: the call is
  \<^verbatim>\<open>readability.FromURL(item.Link, defaultHTTPTimeout)\<close>.
\<close>

theorem item_fetch_has_no_pool_identity_counterexample:
  "\<not> (\<forall>e \<in> set (snd (processRequest exampleWorld newResponse exampleRequest defaultItemsCap)).
        \<forall>k l t. e = ItemFetch k l t \<longrightarrow> (\<exists>ua \<in> set userAgents. clientIdentity e = Some ua))"
proof -
  have "selected (snd (fetchFeedItems exampleWorld exampleFeed (1000 - defaultFromDaysAgo) 10))
      = [0, 3, 4, 5]"
    unfolding fetchFeedItems_selected fetchLoop_selected
    by (simp add: example_defs defaultFromDaysAgo_def enumerate_eq_zip upt_rec)
  then have "0 \<in> set (selected (snd (fetchFeedItems exampleWorld exampleFeed (1000 - defaultFromDaysAgo) 10)))"
    by simp
  then obtain l t where
    "ItemFetch 0 l t \<in> set (snd (fetchFeedItems exampleWorld exampleFeed (1000 - defaultFromDaysAgo) 10))"
    unfolding in_selected_iff by blast
  then have "ItemFetch 0 l t
      \<in> set (snd (processRequest exampleWorld newResponse exampleRequest defaultItemsCap))"
    unfolding example_run serveFeed_fetched[OF example_parse] by simp
  moreover have "\<not> (\<exists>ua \<in> set userAgents. clientIdentity (ItemFetch 0 l t) = Some ua)"
    by simp
  ultimately show ?thesis by blast
qed

text \<open>
  Claim C8, amended. The client identity drawn from the pool is the one of the feed fetch:
  \<^verbatim>\<open>fetchFeed\<close> sets the parser's user agent to
  \<^verbatim>\<open>userAgents[rand.Intn(len(userAgents))]\<close>, one of the ten strings of the pool
  whenever \<^verbatim>\<open>rand.Intn\<close> answers within its range. A per-item fetch is made with the
  link of the item and the fixed timeout, and with no client identity of the program's.
\<close>

theorem pool_identity_is_for_the_feed_fetch:
  assumes "rand_Intn W (length userAgents) < length userAgents"
  shows "length userAgents = 10
       \<and> (\<forall>ua u. FeedFetch ua u \<in> set (snd (processRequest W w req capS)) \<longrightarrow>
              ua = userAgents ! rand_Intn W (length userAgents) \<and> ua \<in> set userAgents)
       \<and> (\<forall>k l t. ItemFetch k l t \<in> set (snd (processRequest W w req capS)) \<longrightarrow>
              clientIdentity (ItemFetch k l t) = None \<and> t = defaultHTTPTimeout \<and>
              (\<exists>u fd. FeedFetch (getRandUserAgent W) u \<in> set (snd (processRequest W w req capS))
                     \<and> ParseURLWithContext W (getRandUserAgent W) u = Inr fd
                     \<and> k < length (Items fd) \<and> l = Link (Items fd ! k)))"
proof -
  have len: "length userAgents = 10" by (simp add: userAgents_def)
  have pool: "getRandUserAgent W \<in> set userAgents"
    unfolding getRandUserAgent_def using assms by (rule nth_mem)
  have feed: "\<forall>ua u. FeedFetch ua u \<in> set (snd (processRequest W w req capS)) \<longrightarrow>
      ua = userAgents ! rand_Intn W (length userAgents) \<and> ua \<in> set userAgents"
  proof (intro allI impI)
    fix ua u
    assume ev: "FeedFetch ua u \<in> set (snd (processRequest W w req capS))"
    then have "snd (processRequest W w req capS) \<noteq> []" by auto
    with processRequest_cases[of W w req capS]
    obtain w1 u' ft cap where run: "processRequest W w req capS = serveFeed W w1 u' ft cap"
      by blast
    from ev have "ua = getRandUserAgent W"
      unfolding run by (simp add: serveFeed_FeedFetch)
    with pool show "ua = userAgents ! rand_Intn W (length userAgents) \<and> ua \<in> set userAgents"
      by (simp add: getRandUserAgent_def)
  qed
  have item: "\<forall>k l t. ItemFetch k l t \<in> set (snd (processRequest W w req capS)) \<longrightarrow>
      clientIdentity (ItemFetch k l t) = None \<and> t = defaultHTTPTimeout \<and>
      (\<exists>u fd. FeedFetch (getRandUserAgent W) u \<in> set (snd (processRequest W w req capS))
             \<and> ParseURLWithContext W (getRandUserAgent W) u = Inr fd
             \<and> k < length (Items fd) \<and> l = Link (Items fd ! k))"
  proof (intro allI impI)
    fix k l t
    assume ev: "ItemFetch k l t \<in> set (snd (processRequest W w req capS))"
    then have "snd (processRequest W w req capS) \<noteq> []" by auto
    with processRequest_cases[of W w req capS]
    obtain w1 u' ft cap where run: "processRequest W w req capS = serveFeed W w1 u' ft cap"
      by blast
    from ev obtain fd where "ParseURLWithContext W (getRandUserAgent W) u' = Inr fd"
      and "k < length (Items fd)" and "l = Link (Items fd ! k)" and "t = defaultHTTPTimeout"
      unfolding run using serveFeed_ItemFetch by blast
    moreover have "FeedFetch (getRandUserAgent W) u' \<in> set (snd (processRequest W w req capS))"
      unfolding run by (simp add: serveFeed_FeedFetch)
    ultimately show "clientIdentity (ItemFetch k l t) = None \<and> t = defaultHTTPTimeout \<and>
      (\<exists>u fd. FeedFetch (getRandUserAgent W) u \<in> set (snd (processRequest W w req capS))
             \<and> ParseURLWithContext W (getRandUserAgent W) u = Inr fd
             \<and> k < length (Items fd) \<and> l = Link (Items fd ! k))"
      by auto
  qed
  from len feed item show ?thesis by blast
qed

theorem pool_identity_is_for_the_feed_fetch_witness:
  "rand_Intn exampleWorld (length userAgents) < length userAgents
   \<and> FeedFetch (getRandUserAgent exampleWorld) ''https://example.com/feed''
       \<in> set (snd (processRequest exampleWorld newResponse exampleRequest defaultItemsCap))
   \<and> getRandUserAgent exampleWorld = userAgents ! 3
   \<and> getRandUserAgent exampleWorld \<in> set userAgents"
proof -
  have r: "rand_Intn exampleWorld (length userAgents) < length userAgents"
    by (simp add: exampleWorld_def userAgents_def)
  have ev: "FeedFetch (getRandUserAgent exampleWorld) ''https://example.com/feed''
      \<in> set (snd (processRequest exampleWorld newResponse exampleRequest defaultItemsCap))"
    unfolding example_run by (simp add: serveFeed_FeedFetch)
  have three: "rand_Intn exampleWorld (length userAgents) = 3"
    by (simp add: exampleWorld_def)
  from pool_identity_is_for_the_feed_fetch[OF r, of newResponse exampleRequest defaultItemsCap] ev
  have "getRandUserAgent exampleWorld = userAgents ! rand_Intn exampleWorld (length userAgents)
      \<and> getRandUserAgent exampleWorld \<in> set userAgents"
    by blast
  with r ev three show ?thesis by simp
qed

end
